theory Spec2Isabelle
  imports Main
begin

section \<open>Machine integers and buffers\<close>

text \<open>
  The C++ source works on \<^verbatim>\<open>int\<close> (32 bit, signed), \<^verbatim>\<open>size_t\<close> (64 bit, unsigned)
  and raw pointers. Integers are modelled as \<^typ>\<open>int\<close> and \<^typ>\<open>nat\<close> with the
  conversions written out. A buffer behind a pointer is a list; an access outside the
  list is undefined behaviour in C++ and is the error \<open>OutOfBounds\<close> here, so that no
  theorem silently relies on an unspecified \<open>xs ! i\<close>.
\<close>

datatype error =
    InvalidArgument string  \<comment> \<open>\<^verbatim>\<open>throw std::invalid_argument(msg)\<close>\<close>
  | OutOfBounds             \<comment> \<open>read or write outside a buffer (undefined behaviour)\<close>
  | NullPointer             \<comment> \<open>call through a null pointer (undefined behaviour)\<close>
  | SignedOverflow          \<comment> \<open>overflow of an \<^verbatim>\<open>int\<close> operation (undefined behaviour)\<close>
  | DivisionByZero          \<comment> \<open>division by zero (undefined behaviour)\<close>
  | AllocationFailure       \<comment> \<open>a request no allocator can serve\<close>

definition INT_MAX :: int where
  "INT_MAX = 2147483647"

definition INT_MIN :: int where
  "INT_MIN = - 2147483648"

definition SIZE_MAX :: int where
  "SIZE_MAX = 18446744073709551615"

text \<open>Conversion to \<^verbatim>\<open>int\<close>: the value modulo \<open>2 ^ 32\<close>, read as two's complement.\<close>

definition to_int :: "int \<Rightarrow> int" where
  "to_int x = (x + 2147483648) mod 4294967296 - 2147483648"

text \<open>Conversion to \<^verbatim>\<open>size_t\<close>: the value modulo \<open>2 ^ 64\<close>.\<close>

definition to_size_t :: "int \<Rightarrow> nat" where
  "to_size_t x = nat (x mod 18446744073709551616)"

definition rd :: "'a list \<Rightarrow> nat \<Rightarrow> error + 'a" where
  "rd xs i = (if i < length xs then Inr (xs ! i) else Inl OutOfBounds)"

definition wr :: "'a list \<Rightarrow> nat \<Rightarrow> 'a \<Rightarrow> error + 'a list" where
  "wr xs i v = (if i < length xs then Inr (xs[i := v]) else Inl OutOfBounds)"

text \<open>
  A \<^verbatim>\<open>std::vector<TypeValue*>\<close> is a list of buffers, one per feature; \<open>rd2 bufs j i\<close>
  is \<^verbatim>\<open>bufs[j][i]\<close> and \<open>wr2 bufs j i v\<close> is \<^verbatim>\<open>bufs[j][i] = v\<close>. The feature
  buffers of one vector are taken to be distinct memory regions.
\<close>

definition rd2 :: "'a list list \<Rightarrow> nat \<Rightarrow> nat \<Rightarrow> error + 'a" where
  "rd2 bufs j i = (case rd bufs j of Inl e \<Rightarrow> Inl e | Inr b \<Rightarrow> rd b i)"

definition wr2 :: "'a list list \<Rightarrow> nat \<Rightarrow> nat \<Rightarrow> 'a \<Rightarrow> error + 'a list list" where
  "wr2 bufs j i v =
     (case rd bufs j of
        Inl e \<Rightarrow> Inl e
      | Inr b \<Rightarrow> (case wr b i v of Inl e \<Rightarrow> Inl e | Inr b' \<Rightarrow> Inr (bufs[j := b'])))"

section \<open>The data handler (\<^verbatim>\<open>wf/data_handler.hpp\<close>)\<close>

text \<open>
  \<^verbatim>\<open>ResourceManager::isDeviceExecution()\<close>, the kernels of \<^verbatim>\<open>ams::Device\<close>, the
  constant \<^verbatim>\<open>partitionSize\<close> and the allocator are declared in headers that are not
  part of the sources at hand. They are parameters of the model: a \<open>platform\<close> holds
  the execution mode, the four kernels that the data handler dispatches to (a kernel
  returns what it leaves in the buffers it may write), the partition budget, and what
  freshly allocated memory holds before its first write (\<open>uninit_bool\<close> for a
  \<^verbatim>\<open>bool\<close> buffer, \<open>uninit_value\<close> for a \<^verbatim>\<open>double\<close> buffer, by position).
\<close>

record 'v platform =
  isDeviceExecution :: bool
  partitionSize :: int
  uninit_bool :: "nat \<Rightarrow> bool"
  uninit_value :: "nat \<Rightarrow> 'v"
  Device_pack ::
    "bool \<Rightarrow> bool list \<Rightarrow> nat \<Rightarrow> 'v list list \<Rightarrow> 'v list list \<Rightarrow> nat
       \<Rightarrow> nat \<times> 'v list list"
  Device_unpack ::
    "bool \<Rightarrow> bool list \<Rightarrow> nat \<Rightarrow> 'v list list \<Rightarrow> 'v list list \<Rightarrow> nat
       \<Rightarrow> nat \<times> 'v list list"
  Device_pack_indices ::
    "bool \<Rightarrow> bool list \<Rightarrow> nat \<Rightarrow> 'v list list \<Rightarrow> 'v list list \<Rightarrow> int list \<Rightarrow> int
       \<Rightarrow> nat \<times> 'v list list \<times> int list"
  Device_unpack_indices ::
    "bool \<Rightarrow> nat \<Rightarrow> 'v list list \<Rightarrow> 'v list list \<Rightarrow> int list \<Rightarrow> int
       \<Rightarrow> 'v list list"

text \<open>
  The inner loop of the host paths,
  \<^verbatim>\<open>for (size_t j = 0; j < dims; j++) dst[j][k] = src[j][i];\<close>
  with \<open>dst = dense\<close>, \<open>src = sparse\<close> in \<^verbatim>\<open>pack\<close> and the roles exchanged in
  \<^verbatim>\<open>unpack\<close>. The result is a pair: the outcome, and the destination buffers as the
  loop leaves them.
\<close>

function copy_features ::
  "'v list list \<Rightarrow> nat \<Rightarrow> 'v list list \<Rightarrow> nat \<Rightarrow> nat \<Rightarrow> nat \<Rightarrow> (error + unit) \<times> 'v list list"
where
  "copy_features src i dst k j dims =
     (if j < dims then
        (case rd2 src j i of
           Inl e \<Rightarrow> (Inl e, dst)
         | Inr v \<Rightarrow>
             (case wr2 dst j k v of
                Inl e \<Rightarrow> (Inl e, dst)
              | Inr dst' \<Rightarrow> copy_features src i dst' k (Suc j) dims))
      else (Inr (), dst))"
  by pat_completeness auto
termination
  by (relation "measure (\<lambda>(src, i, dst, k, j, dims). dims - j)") auto

declare copy_features.simps [simp del]

text \<open>
  Variant 1, host path of \<^verbatim>\<open>pack\<close>:
  \<^verbatim>\<open>for (size_t i = 0; i < n; i++)
    if (predicate[i] == denseVal) {
      for (size_t j = 0; j < dims; j++) dense[j][npacked] = sparse[j][i];
      npacked++;
    }\<close>
\<close>

function pack_loop ::
  "bool list \<Rightarrow> nat \<Rightarrow> 'v list list \<Rightarrow> bool \<Rightarrow> nat \<Rightarrow> nat \<Rightarrow> nat \<Rightarrow> 'v list list
     \<Rightarrow> (error + nat) \<times> 'v list list"
where
  "pack_loop predicate n sparse denseVal dims i npacked dense =
     (if i < n then
        (case rd predicate i of
           Inl e \<Rightarrow> (Inl e, dense)
         | Inr p \<Rightarrow>
             if p = denseVal then
               (case copy_features sparse i dense npacked 0 dims of
                  (Inl e, dense') \<Rightarrow> (Inl e, dense')
                | (Inr u, dense') \<Rightarrow>
                    pack_loop predicate n sparse denseVal dims (Suc i) (Suc npacked) dense')
             else pack_loop predicate n sparse denseVal dims (Suc i) npacked dense)
      else (Inr npacked, dense))"
  by pat_completeness auto
termination
  by (relation "measure (\<lambda>(predicate, n, sparse, denseVal, dims, i, npacked, dense). n - i)") auto

declare pack_loop.simps [simp del]

definition pack ::
  "'v platform \<Rightarrow> bool list \<Rightarrow> nat \<Rightarrow> 'v list list \<Rightarrow> 'v list list \<Rightarrow> bool
     \<Rightarrow> (error + nat) \<times> 'v list list"
where
  "pack pf predicate n sparse dense denseVal =
     (if length sparse \<noteq> length dense
      then (Inl (InvalidArgument ''Packing arrays size mismatch''), dense)
      else
        let dims = length sparse in
        if \<not> isDeviceExecution pf
        then pack_loop predicate n sparse denseVal dims 0 0 dense
        else
          (case Device_pack pf denseVal predicate n sparse dense dims of
             (npacked, dense') \<Rightarrow> (Inr npacked, dense')))"

text \<open>
  Variant 1, host path of \<^verbatim>\<open>unpack\<close>:
  \<^verbatim>\<open>for (size_t i = 0; i < n; i++)
    if (predicate[i] == denseVal) {
      for (size_t j = 0; j < dims; j++) sparse[j][i] = dense[j][npacked];
      npacked++;
    }\<close>
\<close>

function unpack_loop ::
  "bool list \<Rightarrow> nat \<Rightarrow> 'v list list \<Rightarrow> bool \<Rightarrow> nat \<Rightarrow> nat \<Rightarrow> nat \<Rightarrow> 'v list list
     \<Rightarrow> (error + unit) \<times> 'v list list"
where
  "unpack_loop predicate n dense denseVal dims i npacked sparse =
     (if i < n then
        (case rd predicate i of
           Inl e \<Rightarrow> (Inl e, sparse)
         | Inr p \<Rightarrow>
             if p = denseVal then
               (case copy_features dense npacked sparse i 0 dims of
                  (Inl e, sparse') \<Rightarrow> (Inl e, sparse')
                | (Inr u, sparse') \<Rightarrow>
                    unpack_loop predicate n dense denseVal dims (Suc i) (Suc npacked) sparse')
             else unpack_loop predicate n dense denseVal dims (Suc i) npacked sparse)
      else (Inr (), sparse))"
  by pat_completeness auto
termination
  by (relation "measure (\<lambda>(predicate, n, dense, denseVal, dims, i, npacked, sparse). n - i)") auto

declare unpack_loop.simps [simp del]

definition unpack ::
  "'v platform \<Rightarrow> bool list \<Rightarrow> nat \<Rightarrow> 'v list list \<Rightarrow> 'v list list \<Rightarrow> bool
     \<Rightarrow> (error + unit) \<times> 'v list list"
where
  "unpack pf predicate n dense sparse denseVal =
     (if length sparse \<noteq> length dense
      then (Inl (InvalidArgument ''Packing arrays size mismatch''), sparse)
      else
        let dims = length sparse in
        if \<not> isDeviceExecution pf
        then unpack_loop predicate n dense denseVal dims 0 0 sparse
        else
          (case Device_unpack pf denseVal predicate n sparse dense dims of
             (npacked, sparse') \<Rightarrow> (Inr (), sparse')))"

text \<open>
  Variant 2, host path of the index-materialising \<^verbatim>\<open>pack\<close>; the C++ overloads
  of \<^verbatim>\<open>pack\<close> and \<^verbatim>\<open>unpack\<close> that take \<^verbatim>\<open>sparse_indices\<close> are
  \<open>pack_indices\<close> and \<open>unpack_indices\<close> here. The feature count is
  held in an \<^verbatim>\<open>int dims\<close> and compared with the \<^verbatim>\<open>size_t j\<close>; the reverse index
  table is an \<^verbatim>\<open>int*\<close>, so the \<^verbatim>\<open>size_t i\<close> is converted when it is stored:
  \<^verbatim>\<open>for (size_t i = 0; i < n; i++)
    if (predicate[i] == denseVal) {
      for (size_t j = 0; j < dims; j++) dense[j][npacked] = sparse[j][i];
      sparse_indices[npacked++] = i;
    }\<close>
\<close>

function pack_indices_loop ::
  "bool list \<Rightarrow> nat \<Rightarrow> 'v list list \<Rightarrow> bool \<Rightarrow> nat \<Rightarrow> nat \<Rightarrow> nat \<Rightarrow> 'v list list \<Rightarrow> int list
     \<Rightarrow> (error + nat) \<times> 'v list list \<times> int list"
where
  "pack_indices_loop predicate n sparse denseVal dims i npacked dense sparse_indices =
     (if i < n then
        (case rd predicate i of
           Inl e \<Rightarrow> (Inl e, dense, sparse_indices)
         | Inr p \<Rightarrow>
             if p = denseVal then
               (case copy_features sparse i dense npacked 0 dims of
                  (Inl e, dense') \<Rightarrow> (Inl e, dense', sparse_indices)
                | (Inr u, dense') \<Rightarrow>
                    (case wr sparse_indices npacked (to_int (int i)) of
                       Inl e \<Rightarrow> (Inl e, dense', sparse_indices)
                     | Inr sparse_indices' \<Rightarrow>
                         pack_indices_loop predicate n sparse denseVal dims (Suc i) (Suc npacked)
                           dense' sparse_indices'))
             else pack_indices_loop predicate n sparse denseVal dims (Suc i) npacked
                    dense sparse_indices)
      else (Inr npacked, dense, sparse_indices))"
  by pat_completeness auto
termination
  by (relation "measure (\<lambda>(predicate, n, sparse, denseVal, dims, i, rest). n - i)") auto

declare pack_indices_loop.simps [simp del]

definition pack_indices ::
  "'v platform \<Rightarrow> bool list \<Rightarrow> int list \<Rightarrow> nat \<Rightarrow> 'v list list \<Rightarrow> 'v list list \<Rightarrow> bool
     \<Rightarrow> (error + nat) \<times> 'v list list \<times> int list"
where
  "pack_indices pf predicate sparse_indices n sparse dense denseVal =
     (if length sparse \<noteq> length dense
      then (Inl (InvalidArgument ''Packing arrays size mismatch''), dense, sparse_indices)
      else
        let dims = to_int (int (length sparse)) in
        if \<not> isDeviceExecution pf
        then pack_indices_loop predicate n sparse denseVal (to_size_t dims) 0 0
               dense sparse_indices
        else
          (case Device_pack_indices pf denseVal predicate n sparse dense sparse_indices dims of
             (npacked, dense', sparse_indices') \<Rightarrow> (Inr npacked, dense', sparse_indices')))"

text \<open>
  Variant 2, host path of the index-based \<^verbatim>\<open>unpack\<close>:
  \<^verbatim>\<open>for (size_t i = 0; i < nPacked; i++)
    for (size_t j = 0; j < dims; j++)
      sparse[j][sparse_indices[i]] = dense[j][i];\<close>
  The index is read from the table for every feature; a negative index addresses memory
  before the buffer.
\<close>

function unpack_indices_features ::
  "int list \<Rightarrow> 'v list list \<Rightarrow> nat \<Rightarrow> 'v list list \<Rightarrow> nat \<Rightarrow> nat \<Rightarrow> (error + unit) \<times> 'v list list"
where
  "unpack_indices_features sparse_indices dense i sparse j dims =
     (if j < dims then
        (case rd sparse_indices i of
           Inl e \<Rightarrow> (Inl e, sparse)
         | Inr s \<Rightarrow>
             if s < 0 then (Inl OutOfBounds, sparse)
             else
               (case rd2 dense j i of
                  Inl e \<Rightarrow> (Inl e, sparse)
                | Inr v \<Rightarrow>
                    (case wr2 sparse j (nat s) v of
                       Inl e \<Rightarrow> (Inl e, sparse)
                     | Inr sparse' \<Rightarrow>
                         unpack_indices_features sparse_indices dense i sparse' (Suc j) dims)))
      else (Inr (), sparse))"
  by pat_completeness auto
termination
  by (relation "measure (\<lambda>(sparse_indices, dense, i, sparse, j, dims). dims - j)") auto

declare unpack_indices_features.simps [simp del]

function unpack_indices_loop ::
  "int list \<Rightarrow> nat \<Rightarrow> 'v list list \<Rightarrow> nat \<Rightarrow> nat \<Rightarrow> 'v list list \<Rightarrow> (error + unit) \<times> 'v list list"
where
  "unpack_indices_loop sparse_indices nPacked dense dims i sparse =
     (if i < nPacked then
        (case unpack_indices_features sparse_indices dense i sparse 0 dims of
           (Inl e, sparse') \<Rightarrow> (Inl e, sparse')
         | (Inr u, sparse') \<Rightarrow>
             unpack_indices_loop sparse_indices nPacked dense dims (Suc i) sparse')
      else (Inr (), sparse))"
  by pat_completeness auto
termination
  by (relation "measure (\<lambda>(sparse_indices, nPacked, dense, dims, i, sparse). nPacked - i)") auto

declare unpack_indices_loop.simps [simp del]

definition unpack_indices ::
  "'v platform \<Rightarrow> int list \<Rightarrow> nat \<Rightarrow> 'v list list \<Rightarrow> 'v list list \<Rightarrow> bool
     \<Rightarrow> (error + unit) \<times> 'v list list"
where
  "unpack_indices pf sparse_indices nPacked dense sparse denseVal =
     (if length sparse \<noteq> length dense
      then (Inl (InvalidArgument ''Packing arrays size mismatch''), sparse)
      else
        let dims = to_int (int (length sparse)) in
        if \<not> isDeviceExecution pf
        then unpack_indices_loop sparse_indices nPacked dense (to_size_t dims) 0 sparse
        else
          (Inr (),
           Device_unpack_indices pf denseVal nPacked sparse dense sparse_indices dims))"

text \<open>
  \<^verbatim>\<open>computePartitionSize\<close>. \<open>sizeof_TypeValue\<close> is \<^verbatim>\<open>sizeof(TypeValue)\<close> of the
  template instance and \<^verbatim>\<open>sizeof(int)\<close> is 4. The sum of the two counts is an
  \<^verbatim>\<open>int\<close> addition; its product with \<^verbatim>\<open>sizeof(TypeValue)\<close> is computed in
  \<^verbatim>\<open>size_t\<close> and converted to the \<^verbatim>\<open>int singleElementBytes\<close>. With the re-index
  vector the divisor \<^verbatim>\<open>singleElementBytes + sizeof(int)\<close> is a \<^verbatim>\<open>size_t\<close>, so the
  division is unsigned; without it the division is the truncating \<^verbatim>\<open>int\<close> division.
\<close>

definition sizeof_int :: nat where
  "sizeof_int = 4"

definition int_div :: "int \<Rightarrow> int \<Rightarrow> int" where
  "int_div a b = sgn a * sgn b * (\<bar>a\<bar> div \<bar>b\<bar>)"

definition computePartitionSize :: "nat \<Rightarrow> int \<Rightarrow> int \<Rightarrow> bool \<Rightarrow> int \<Rightarrow> error + int" where
  "computePartitionSize sizeof_TypeValue numIFeatures numOFeatures includeReIndex pSize =
     (let numFeatures = numIFeatures + numOFeatures in
      if numFeatures < INT_MIN \<or> INT_MAX < numFeatures then Inl SignedOverflow
      else
        let singleElementBytes =
              to_int (int ((sizeof_TypeValue * to_size_t numFeatures) mod 18446744073709551616)) in
        if includeReIndex then
          (let divisor = (to_size_t singleElementBytes + sizeof_int) mod 18446744073709551616 in
           if divisor = 0 then Inl DivisionByZero
           else Inr (to_int (int (to_size_t pSize div divisor))))
        else
          (if singleElementBytes = 0 then Inl DivisionByZero
           else if pSize = INT_MIN \<and> singleElementBytes = - 1 then Inl SignedOverflow
           else Inr (int_div pSize singleElementBytes)))"

section \<open>The per-material pipeline (\<^verbatim>\<open>MiniApp::evaluate_inner\<close>)\<close>

text \<open>
  The three collaborators are declared outside the sources at hand and are parameters.
  Each is the effect of its entry point on the buffers it may write:
  \<^item> \<^verbatim>\<open>EOS::Eval(length, energy, density, pressure, soundspeed2, bulkmod, temperature)\<close>
    returns the four output buffers;
  \<^item> \<^verbatim>\<open>SurrogateModel::Eval(elements, inputs, outputs)\<close> returns the output buffers;
  \<^item> \<^verbatim>\<open>HDCache::evaluate(num_data, inputs, p_ml_acceptable)\<close> returns the predicate
    buffer.
  A null entry of \<^verbatim>\<open>eoses\<close>, \<^verbatim>\<open>surrogates\<close> or \<^verbatim>\<open>hdcaches\<close> is \<open>None\<close>.
\<close>

type_synonym 'v EOS =
  "int \<Rightarrow> 'v list \<Rightarrow> 'v list \<Rightarrow> 'v list \<Rightarrow> 'v list \<Rightarrow> 'v list \<Rightarrow> 'v list
     \<Rightarrow> 'v list \<times> 'v list \<times> 'v list \<times> 'v list"

type_synonym 'v SurrogateModel = "int \<Rightarrow> 'v list list \<Rightarrow> 'v list list \<Rightarrow> 'v list list"

type_synonym 'v HDCache = "int \<Rightarrow> 'v list list \<Rightarrow> bool list \<Rightarrow> bool list"

record 'v MiniApp =
  eoses :: "'v EOS option list"
  hdcaches :: "'v HDCache option list"
  surrogates :: "'v SurrogateModel option list"

text \<open>The calls made to the collaborators, in order, each with its sample count.\<close>

datatype call = UQ_evaluate int | Surrogate_Eval int | EOS_Eval int

text \<open>\<^verbatim>\<open>v[mat_idx]\<close> on a \<^verbatim>\<open>std::vector\<close> with an \<^verbatim>\<open>int\<close> index.\<close>

definition at_index :: "'a list \<Rightarrow> int \<Rightarrow> error + 'a" where
  "at_index xs i = (if 0 \<le> i \<and> nat i < length xs then Inr (xs ! nat i) else Inl OutOfBounds)"

text \<open>
  Modelled from the spec: \<^verbatim>\<open>AMS::utilities::allocate(bytes)\<close> is not among the
  sources. It returns a buffer of the requested size on the default memory space and
  does not initialise it; an allocation failure is fatal. The caller computes the byte
  count as \<^verbatim>\<open>count * sizeof(T)\<close> in \<^verbatim>\<open>size_t\<close> from an \<^verbatim>\<open>int count\<close>; a request
  above \<open>PTRDIFF_MAX\<close> (which a negative count gives) cannot be served.
\<close>

definition PTRDIFF_MAX :: nat where
  "PTRDIFF_MAX = 9223372036854775807"

definition allocate :: "(nat \<Rightarrow> 'a) \<Rightarrow> nat \<Rightarrow> int \<Rightarrow> error + 'a list" where
  "allocate uninit sizeof_T count =
     (let bytes = (to_size_t count * sizeof_T) mod 18446744073709551616 in
      if PTRDIFF_MAX < bytes then Inl AllocationFailure
      else Inr (map uninit [0..<bytes div sizeof_T]))"

definition sizeof_double :: nat where
  "sizeof_double = 8"

definition sizeof_bool :: nat where
  "sizeof_bool = 1"

text \<open>
  One iteration of the partition loop, from the computation of \<^verbatim>\<open>elements\<close> to the
  release of the packed buffers. \<^verbatim>\<open>&p[pId]\<close> is the buffer from position \<open>pId\<close> on;
  what the iteration leaves in these views is written back behind the first \<open>pId\<close>
  positions. The six packed buffers are allocated alike, so one allocation stands for
  them in the model. The blocks under \<^verbatim>\<open>__SURROGATE_DEBUG__\<close>, \<^verbatim>\<open>__ENABLE_DB__\<close>
  and \<^verbatim>\<open>__ENABLE_CALIPER__\<close> are compiled out, and the progress line printed to
  \<^verbatim>\<open>std::cout\<close> is not part of the state.
\<close>

definition partition_body ::
  "'v platform \<Rightarrow> 'v MiniApp \<Rightarrow> int \<Rightarrow> int \<Rightarrow> 'v list list \<Rightarrow> bool list \<Rightarrow> int \<Rightarrow> int
     \<Rightarrow> 'v list list \<Rightarrow> call list \<Rightarrow> error + 'v list list \<times> call list"
where
  "partition_body pf app mat_idx num_data inputs p_ml_acceptable partitionElements pId
       outputs trace =
     (let elements = min partitionElements (num_data - pId) in
      case allocate (uninit_value pf) sizeof_double elements of
        Inl e \<Rightarrow> Inl e
      | Inr packed_buffer \<Rightarrow>
     (let sparse_inputs = map (drop (nat pId)) inputs;
          sparse_outputs = map (drop (nat pId)) outputs;
          packed_inputs = [packed_buffer, packed_buffer];
          predicate = drop (nat pId) p_ml_acceptable
      in
      case at_index (surrogates app) mat_idx of
        Inl e \<Rightarrow> Inl e
      | Inr surrogate \<Rightarrow>
     (let (sparse_outputs1, trace1) =
            (case surrogate of
               None \<Rightarrow> (sparse_outputs, trace)
             | Some Eval \<Rightarrow>
                 (Eval elements sparse_inputs sparse_outputs, trace @ [Surrogate_Eval elements]))
      in
      case pack pf predicate (to_size_t elements) sparse_inputs packed_inputs False of
        (Inl e, packed_inputs1) \<Rightarrow> Inl e
      | (Inr packedElements, packed_inputs1) \<Rightarrow>
     (case at_index (eoses app) mat_idx of
        Inl e \<Rightarrow> Inl e
      | Inr None \<Rightarrow> Inl NullPointer
      | Inr (Some Eval) \<Rightarrow>
     (case rd packed_inputs1 1 of
        Inl e \<Rightarrow> Inl e
      | Inr packed_energy \<Rightarrow>
     (case rd packed_inputs1 0 of
        Inl e \<Rightarrow> Inl e
      | Inr packed_density \<Rightarrow>
     (case Eval (int packedElements) packed_energy packed_density
             packed_buffer packed_buffer packed_buffer packed_buffer of
        (packed_pressure, packed_soundspeed2, packed_bulkmod, packed_temperature) \<Rightarrow>
     (let packed_outputs =
            [packed_pressure, packed_soundspeed2, packed_bulkmod, packed_temperature];
          trace2 = trace1 @ [EOS_Eval (int packedElements)]
      in
      case unpack pf predicate (to_size_t elements) packed_outputs sparse_outputs1 False of
        (Inl e, sparse_outputs2) \<Rightarrow> Inl e
      | (Inr u, sparse_outputs2) \<Rightarrow>
          Inr (map2 (\<lambda>buffer view. take (nat pId) buffer @ view) outputs sparse_outputs2,
               trace2)))))))))"

text \<open>
  The partition loop
  \<^verbatim>\<open>for (int pId = 0; pId < num_data; pId += partitionElements)\<close>.
  Nothing in the loop makes it advance when \<^verbatim>\<open>partitionElements\<close> is 0, so the
  function is partial: \<open>None\<close> is a run that does not return.
\<close>

partial_function (option) partition_loop ::
  "'v platform \<Rightarrow> 'v MiniApp \<Rightarrow> int \<Rightarrow> int \<Rightarrow> 'v list list \<Rightarrow> bool list \<Rightarrow> int \<Rightarrow> int
     \<Rightarrow> 'v list list \<Rightarrow> call list \<Rightarrow> (error + 'v list list \<times> call list) option"
where
  "partition_loop pf app mat_idx num_data inputs p_ml_acceptable partitionElements pId
       outputs trace =
     (if pId < num_data then
        (case partition_body pf app mat_idx num_data inputs p_ml_acceptable
                partitionElements pId outputs trace of
           Inl e \<Rightarrow> Some (Inl e)
         | Inr (outputs', trace') \<Rightarrow>
             if INT_MAX < pId + partitionElements \<or> pId + partitionElements < INT_MIN
             then Some (Inl SignedOverflow)
             else partition_loop pf app mat_idx num_data inputs p_ml_acceptable
                    partitionElements (pId + partitionElements) outputs' trace')
      else Some (Inr (outputs, trace)))"

text \<open>
  \<^verbatim>\<open>evaluate_inner\<close>: the predicate buffer is allocated and, when a UQ cache is
  registered, filled by it; then the partition loop runs with the partition size that
  \<^verbatim>\<open>computePartitionSize(2, 4)\<close> gives for \<^verbatim>\<open>TypeValue = double\<close>. The result holds
  the four output buffers \<^verbatim>\<open>pPressure, pSoundSpeed2, pBulkmod, pTemperature\<close> and the
  calls made.
\<close>

definition evaluate_inner ::
  "'v platform \<Rightarrow> 'v MiniApp \<Rightarrow> int \<Rightarrow> int \<Rightarrow> 'v list \<Rightarrow> 'v list
     \<Rightarrow> 'v list \<Rightarrow> 'v list \<Rightarrow> 'v list \<Rightarrow> 'v list
     \<Rightarrow> (error + 'v list list \<times> call list) option"
where
  "evaluate_inner pf app mat_idx num_data pDensity pEnergy
       pPressure pSoundSpeed2 pBulkmod pTemperature =
     (case allocate (uninit_bool pf) sizeof_bool num_data of
        Inl e \<Rightarrow> Some (Inl e)
      | Inr p_ml_acceptable \<Rightarrow>
     (case at_index (hdcaches app) mat_idx of
        Inl e \<Rightarrow> Some (Inl e)
      | Inr hdcache \<Rightarrow>
     (let (p_ml_acceptable1, trace) =
            (case hdcache of
               None \<Rightarrow> (p_ml_acceptable, [])
             | Some evaluate \<Rightarrow>
                 (evaluate num_data [pDensity, pEnergy] p_ml_acceptable,
                  [UQ_evaluate num_data]))
      in
      case computePartitionSize sizeof_double 2 4 True (partitionSize pf) of
        Inl e \<Rightarrow> Some (Inl e)
      | Inr partitionElements \<Rightarrow>
          partition_loop pf app mat_idx num_data [pDensity, pEnergy] p_ml_acceptable1
            partitionElements 0 [pPressure, pSoundSpeed2, pBulkmod, pTemperature] trace)))"

section \<open>Specification functions\<close>

text \<open>
  The functions of this section are not part of the program: they say, without loops,
  what the loops of the data handler compute. \<open>selected predicate denseVal a b\<close> lists,
  in ascending order, the positions \<open>i\<close> with \<open>a \<le> i < b\<close> whose predicate value is
  \<open>denseVal\<close>.
\<close>

definition selected :: "bool list \<Rightarrow> bool \<Rightarrow> nat \<Rightarrow> nat \<Rightarrow> nat list" where
  "selected predicate denseVal a b = filter (\<lambda>i. predicate ! i = denseVal) [a..<b]"

text \<open>
  \<open>put_features src i dst k j0 dims\<close> is \<open>dst\<close> after sample \<open>i\<close> of the features
  \<open>j0 \<le> j < dims\<close> of \<open>src\<close> has been copied to position \<open>k\<close>.
\<close>

definition put_features ::
  "'v list list \<Rightarrow> nat \<Rightarrow> 'v list list \<Rightarrow> nat \<Rightarrow> nat \<Rightarrow> nat \<Rightarrow> 'v list list"
where
  "put_features src i dst k j0 dims =
     map (\<lambda>j. if j0 \<le> j \<and> j < dims then (dst ! j)[k := src ! j ! i] else dst ! j)
       [0..<length dst]"

text \<open>
  \<open>packed sparse dense is npacked\<close> is \<open>dense\<close> after the samples of \<open>sparse\<close> at
  the positions \<open>is\<close> have been stored from entry \<open>npacked\<close> on, and
  \<open>recorded sparse_indices is npacked\<close> is the reverse index table after these
  positions have been stored there.
\<close>

definition packed :: "'v list list \<Rightarrow> 'v list list \<Rightarrow> nat list \<Rightarrow> nat \<Rightarrow> 'v list list" where
  "packed sparse dense is npacked =
     map (\<lambda>j. take npacked (dense ! j) @ map ((!) (sparse ! j)) is
               @ drop (npacked + length is) (dense ! j)) [0..<length dense]"

definition recorded :: "int list \<Rightarrow> nat list \<Rightarrow> nat \<Rightarrow> int list" where
  "recorded sparse_indices is npacked =
     take npacked sparse_indices @ map int is @ drop (npacked + length is) sparse_indices"

text \<open>
  \<open>scattered P dv n dense sparse i npacked\<close> is \<open>sparse\<close> after the entries of
  \<open>dense\<close> from \<open>npacked\<close> on have been written back to the selected positions
  \<open>i \<le> p < n\<close>, in ascending order.
\<close>

definition scattered ::
  "bool list \<Rightarrow> bool \<Rightarrow> nat \<Rightarrow> 'v list list \<Rightarrow> 'v list list \<Rightarrow> nat \<Rightarrow> nat \<Rightarrow> 'v list list"
where
  "scattered P dv n dense sparse i npacked =
     map (\<lambda>j. map (\<lambda>p. if i \<le> p \<and> p < n \<and> P ! p = dv
                        then dense ! j ! (npacked + length (selected P dv i p))
                        else sparse ! j ! p) [0..<length (sparse ! j)]) [0..<length sparse]"

section \<open>Instances\<close>

text \<open>
  The concrete inputs at which the theorems are applied: a host platform with a budget
  of two samples per partition, whose fresh memory holds \<^verbatim>\<open>true\<close> and 0.
\<close>

definition host_platform :: "int platform" where
  "host_platform =
     \<lparr> isDeviceExecution = False, partitionSize = 104,
       uninit_bool = (\<lambda>i. True), uninit_value = (\<lambda>i. 0),
       Device_pack = (\<lambda>denseVal predicate n sparse dense dims. (0, dense)),
       Device_unpack = (\<lambda>denseVal predicate n sparse dense dims. (0, sparse)),
       Device_pack_indices =
         (\<lambda>denseVal predicate n sparse dense sparse_indices dims. (0, dense, sparse_indices)),
       Device_unpack_indices = (\<lambda>denseVal nPacked sparse dense sparse_indices dims. sparse) \<rparr>"

text \<open>
  An evaluator that writes the constant \<open>c\<close> to the first \<open>n\<close> positions of every
  output buffer, as a surrogate and as a physics evaluator; an application with one
  material that has both and no UQ cache; and one with a UQ cache that accepts every
  sample, a surrogate and no physics evaluator.
\<close>

definition fill :: "int \<Rightarrow> int \<Rightarrow> int list \<Rightarrow> int list" where
  "fill n c buffer = map (\<lambda>i. if int i < n then c else buffer ! i) [0..<length buffer]"

definition constant_surrogate :: "int \<Rightarrow> int SurrogateModel" where
  "constant_surrogate c = (\<lambda>elements inputs outputs. map (fill elements c) outputs)"

definition constant_eos :: "int \<Rightarrow> int EOS" where
  "constant_eos c =
     (\<lambda>n energy density pressure soundspeed2 bulkmod temperature.
        (fill n c pressure, fill n c soundspeed2, fill n c bulkmod, fill n c temperature))"

definition example_app :: "int MiniApp" where
  "example_app =
     \<lparr> eoses = [Some (constant_eos 9)], hdcaches = [None],
       surrogates = [Some (constant_surrogate 7)] \<rparr>"

definition no_physics_app :: "int MiniApp" where
  "no_physics_app =
     \<lparr> eoses = [None],
       hdcaches = [Some (\<lambda>num_data inputs p_ml_acceptable. map (\<lambda>b. True) p_ml_acceptable)],
       surrogates = [Some (constant_surrogate 7)] \<rparr>"

section \<open>Lemmas about the model\<close>

subsection \<open>Buffers and conversions\<close>

lemma rd_in [simp]: "i < length xs \<Longrightarrow> rd xs i = Inr (xs ! i)"
  by (simp add: rd_def)

lemma rd_out [simp]: "\<not> i < length xs \<Longrightarrow> rd xs i = Inl OutOfBounds"
  by (simp add: rd_def)

lemma wr_in [simp]: "i < length xs \<Longrightarrow> wr xs i v = Inr (xs[i := v])"
  by (simp add: wr_def)

lemma rd2_in: "j < length bufs \<Longrightarrow> i < length (bufs ! j) \<Longrightarrow> rd2 bufs j i = Inr (bufs ! j ! i)"
  by (simp add: rd2_def)

lemma wr2_in:
  "j < length bufs \<Longrightarrow> i < length (bufs ! j) \<Longrightarrow> wr2 bufs j i v = Inr (bufs[j := (bufs ! j)[i := v]])"
  by (simp add: wr2_def)

lemma rd_error: "rd xs i = Inl e \<Longrightarrow> e = OutOfBounds"
  by (auto simp: rd_def split: if_splits)

lemma wr_error: "wr xs i v = Inl e \<Longrightarrow> e = OutOfBounds"
  by (auto simp: wr_def split: if_splits)

lemma rd2_error: "rd2 bufs j i = Inl e \<Longrightarrow> e = OutOfBounds"
  by (auto simp: rd2_def split: sum.splits dest: rd_error)

lemma wr2_error: "wr2 bufs j i v = Inl e \<Longrightarrow> e = OutOfBounds"
  by (auto simp: wr2_def split: sum.splits dest: rd_error wr_error)

lemma to_int_id: "INT_MIN \<le> x \<Longrightarrow> x \<le> INT_MAX \<Longrightarrow> to_int x = x"
  by (simp add: to_int_def INT_MIN_def INT_MAX_def)

lemma to_size_t_id: "0 \<le> x \<Longrightarrow> x \<le> SIZE_MAX \<Longrightarrow> to_size_t x = nat x"
  by (simp add: to_size_t_def SIZE_MAX_def)

lemma int_div_nonneg: "0 \<le> a \<Longrightarrow> 0 < b \<Longrightarrow> int_div a b = a div b"
  by (cases "a = 0") (simp_all add: int_div_def)

lemma dims_as_int:
  "int m \<le> INT_MAX \<Longrightarrow> to_size_t (to_int (int m)) = m"
  by (simp add: to_int_id to_size_t_id INT_MIN_def INT_MAX_def SIZE_MAX_def)

subsection \<open>The selected positions\<close>

lemma selected_step:
  "i < n \<Longrightarrow> selected P dv i n = (if P ! i = dv then i # selected P dv (Suc i) n else selected P dv (Suc i) n)"
  by (simp add: selected_def upt_conv_Cons)

lemma selected_empty: "\<not> i < n \<Longrightarrow> selected P dv i n = []"
  by (simp add: selected_def)

lemma selected_Suc_right:
  "i \<le> p \<Longrightarrow> selected P dv i (Suc p) = selected P dv i p @ (if P ! p = dv then [p] else [])"
  by (simp add: selected_def)

lemma selected_first: "i < p \<Longrightarrow> P ! i = dv \<Longrightarrow> selected P dv i p = i # selected P dv (Suc i) p"
  by (simp add: selected_def upt_conv_Cons)

lemma selected_skip: "i < p \<Longrightarrow> P ! i \<noteq> dv \<Longrightarrow> selected P dv i p = selected P dv (Suc i) p"
  by (simp add: selected_def upt_conv_Cons)

lemma selected_self: "selected P dv i i = []"
  by (simp add: selected_def)

lemma selected_nth_rank:
  assumes "p < n" "P ! p = dv"
  shows "length (selected P dv 0 p) < length (selected P dv 0 n)"
    and "selected P dv 0 n ! length (selected P dv 0 p) = p"
proof -
  have "[0..<n] = [0..<p] @ p # [Suc p..<n]"
    using assms(1)
    by (metis le_add1 less_imp_add_positive upt_add_eq_append upt_conv_Cons plus_nat.add_0)
  then have e: "selected P dv 0 n = selected P dv 0 p @ p # selected P dv (Suc p) n"
    using assms(2) by (simp add: selected_def)
  show "length (selected P dv 0 p) < length (selected P dv 0 n)" by (simp add: e)
  show "selected P dv 0 n ! length (selected P dv 0 p) = p" by (simp add: e)
qed

lemma selected_set: "set (selected P dv a b) = {i. a \<le> i \<and> i < b \<and> P ! i = dv}"
  by (auto simp: selected_def)

lemma selected_sorted: "sorted_wrt (<) (selected P dv a b)"
  by (simp add: selected_def sorted_wrt_filter)

lemma selected_card: "length (selected P dv 0 n) = card {i. i < n \<and> P ! i = dv}"
proof -
  have "distinct (selected P dv 0 n)" by (simp add: selected_def)
  then have "length (selected P dv 0 n) = card (set (selected P dv 0 n))"
    by (simp add: distinct_card)
  then show ?thesis by (simp add: selected_set)
qed

lemma selected_drop_card:
  assumes "m + b \<le> length P"
  shows "length (selected (drop m P) dv 0 b) = card {q. q < b \<and> P ! (m + q) = dv}"
proof -
  have "{q. q < b \<and> drop m P ! q = dv} = {q. q < b \<and> P ! (m + q) = dv}"
    using assms by auto
  then show ?thesis by (simp add: selected_card)
qed

lemma selected_of_last:
  "selected (replicate N (\<not> dv) @ [dv]) dv 0 (Suc N) = [N]"
proof -
  have "filter (\<lambda>i. (replicate N (\<not> dv) @ [dv]) ! i = dv) [0..<N] = []"
    by (auto simp: filter_empty_conv nth_append)
  then show ?thesis
    by (simp add: selected_def nth_append)
qed

subsection \<open>Packed, scattered and recorded buffers\<close>

lemma packed_Nil: "packed sparse dense [] npacked = dense"
  by (auto simp: packed_def intro!: nth_equalityI)

lemma packed_step:
  assumes "\<And>j. j < length dense \<Longrightarrow> npacked < length (dense ! j)"
  shows "packed sparse (put_features sparse i dense npacked 0 (length dense)) is (Suc npacked)
         = packed sparse dense (i # is) npacked"
  using assms
  by (auto simp: packed_def put_features_def take_Suc_conv_app_nth intro!: nth_equalityI)

lemma packed_length: "length (packed sparse dense is npacked) = length dense"
  by (simp add: packed_def)

lemma packed_take:
  "j < length dense \<Longrightarrow> length is \<le> length (dense ! j) \<Longrightarrow>
   take (length is) (packed sparse dense is 0 ! j) = map ((!) (sparse ! j)) is"
  by (simp add: packed_def)

lemma packed_drop:
  "j < length dense \<Longrightarrow> length is \<le> length (dense ! j) \<Longrightarrow>
   drop (length is) (packed sparse dense is 0 ! j) = drop (length is) (dense ! j)"
  by (simp add: packed_def)

lemma packed_buffer_length:
  "j < length dense \<Longrightarrow> npacked + length is \<le> length (dense ! j) \<Longrightarrow>
   length (packed sparse dense is npacked ! j) = length (dense ! j)"
  by (simp add: packed_def)

lemma packed_nth:
  "j < length dense \<Longrightarrow> q < length is \<Longrightarrow> packed sparse dense is 0 ! j ! q = sparse ! j ! (is ! q)"
  by (simp add: packed_def nth_append)

lemma packed_fits:
  assumes "\<forall>b\<in>set dense. length is \<le> length b"
  shows "\<forall>b\<in>set (packed sparse dense is 0). length is \<le> length b"
  using assms by (auto simp: packed_def)

lemma scattered_done: "\<not> i < n \<Longrightarrow> scattered P dv n dense sparse i npacked = sparse"
  by (auto simp: scattered_def intro!: nth_equalityI)

lemma scattered_step:
  assumes "i < n" "P ! i = dv" "\<And>j. j < length sparse \<Longrightarrow> i < length (sparse ! j)"
  shows "scattered P dv n dense (put_features dense npacked sparse i 0 (length sparse)) (Suc i) (Suc npacked)
         = scattered P dv n dense sparse i npacked"
proof -
  have "\<And>p. Suc i \<le> p \<Longrightarrow> length (selected P dv i p) = Suc (length (selected P dv (Suc i) p))"
    using assms(2) by (simp add: selected_first)
  then show ?thesis
    using assms
    by (auto simp: scattered_def put_features_def selected_self nth_list_update Suc_le_eq
          intro!: nth_equalityI dest: le_neq_implies_less)
qed

lemma scattered_skip:
  assumes "i < n" "P ! i \<noteq> dv"
  shows "scattered P dv n dense sparse (Suc i) npacked = scattered P dv n dense sparse i npacked"
proof -
  have "\<And>p. Suc i \<le> p \<Longrightarrow> length (selected P dv i p) = length (selected P dv (Suc i) p)"
    using assms(2) by (simp add: selected_skip)
  then show ?thesis
    using assms
    by (auto simp: scattered_def Suc_le_eq intro!: nth_equalityI dest: le_neq_implies_less)
qed

lemma scattered_length: "length (scattered P dv n dense sparse i npacked) = length sparse"
  by (simp add: scattered_def)

lemma scattered_buffer_length:
  "j < length sparse \<Longrightarrow> length (scattered P dv n dense sparse i npacked ! j) = length (sparse ! j)"
  by (simp add: scattered_def)

lemma scattered_nth:
  "j < length sparse \<Longrightarrow> p < length (sparse ! j) \<Longrightarrow>
   scattered P dv n dense sparse i npacked ! j ! p
     = (if i \<le> p \<and> p < n \<and> P ! p = dv
        then dense ! j ! (npacked + length (selected P dv i p)) else sparse ! j ! p)"
  by (simp add: scattered_def)

lemma recorded_Nil: "recorded idx [] npacked = idx"
  by (simp add: recorded_def)

lemma recorded_step:
  "npacked < length idx \<Longrightarrow> recorded (idx[npacked := int i]) is (Suc npacked) = recorded idx (i # is) npacked"
  by (simp add: recorded_def take_Suc_conv_app_nth)

lemma recorded_nth:
  "length is \<le> length idx \<Longrightarrow> q < length is \<Longrightarrow> recorded idx is 0 ! q = int (is ! q)"
  by (simp add: recorded_def nth_append)

lemma recorded_length:
  "npacked + length is \<le> length idx \<Longrightarrow> length (recorded idx is npacked) = length idx"
  by (simp add: recorded_def)

subsection \<open>The copy of one sample\<close>

lemma copy_features_ok:
  "dims \<le> length src \<Longrightarrow> dims \<le> length dst \<Longrightarrow>
   (\<And>j. j0 \<le> j \<Longrightarrow> j < dims \<Longrightarrow> i < length (src ! j) \<and> k < length (dst ! j)) \<Longrightarrow>
   copy_features src i dst k j0 dims = (Inr (), put_features src i dst k j0 dims)"
proof (induction src i dst k j0 dims rule: copy_features.induct)
  case (1 src i dst k j dims)
  show ?case
  proof (cases "j < dims")
    case False
    then have "put_features src i dst k j dims = dst"
      by (auto simp: put_features_def intro!: nth_equalityI)
    with False show ?thesis
      by (subst copy_features.simps) simp
  next
    case True
    let ?dst' = "dst[j := (dst ! j)[k := src ! j ! i]]"
    from True 1 have b: "j < length src" "j < length dst" "i < length (src ! j)" "k < length (dst ! j)"
      by auto
    have r: "rd2 src j i = Inr (src ! j ! i)" using b by (simp add: rd2_in)
    have w: "wr2 dst j k (src ! j ! i) = Inr ?dst'" using b by (simp add: wr2_in)
    have ih: "copy_features src i ?dst' k (Suc j) dims = (Inr (), put_features src i ?dst' k (Suc j) dims)"
      using 1(1)[OF True r w] 1(2,3,4) b
      by (simp add: nth_list_update)
    have "put_features src i ?dst' k (Suc j) dims = put_features src i dst k j dims"
      using b True by (auto simp: put_features_def nth_list_update intro!: nth_equalityI)
    with ih True r w show ?thesis
      by (subst copy_features.simps) simp
  qed
qed

lemma copy_features_error:
  "fst (copy_features src i dst k j dims) = Inl e \<Longrightarrow> e = OutOfBounds"
proof (induction src i dst k j dims rule: copy_features.induct)
  case (1 src i dst k j dims)
  from "1.prems" show ?case
    by (subst (asm) copy_features.simps)
       (auto split: if_splits sum.splits dest: rd2_error wr2_error "1.IH")
qed

subsection \<open>The host loops of Variant 1\<close>

lemma pack_loop_ok:
  "length sparse = dims \<Longrightarrow> length dense = dims \<Longrightarrow> n \<le> length P \<Longrightarrow>
   (\<And>j. j < dims \<Longrightarrow> n \<le> length (sparse ! j)) \<Longrightarrow>
   (\<And>j. j < dims \<Longrightarrow> npacked + length (selected P dv i n) \<le> length (dense ! j)) \<Longrightarrow>
   pack_loop P n sparse dv dims i npacked dense
     = (Inr (npacked + length (selected P dv i n)), packed sparse dense (selected P dv i n) npacked)"
proof (induction P n sparse dv dims i npacked dense rule: pack_loop.induct)
  case (1 P n sparse dv dims i npacked dense)
  show ?case
  proof (cases "i < n")
    case False
    then show ?thesis
      by (subst pack_loop.simps) (simp add: selected_empty packed_Nil)
  next
    case True
    then have r: "rd P i = Inr (P ! i)" using 1(5) by simp
    show ?thesis
    proof (cases "P ! i = dv")
      case False
      have "pack_loop P n sparse dv dims (Suc i) npacked dense
              = (Inr (npacked + length (selected P dv (Suc i) n)),
                 packed sparse dense (selected P dv (Suc i) n) npacked)"
        using 1(2)[OF True r False] 1(3-7) True False by (simp add: selected_step)
      with True r False show ?thesis
        by (subst pack_loop.simps) (simp add: selected_step)
    next
      case eq: True
      let ?d = "put_features sparse i dense npacked 0 dims"
      have s: "selected P dv i n = i # selected P dv (Suc i) n"
        using True eq by (simp add: selected_step)
      have lt: "\<And>j. j < dims \<Longrightarrow> npacked < length (dense ! j)"
        using 1(7) s by fastforce
      have c: "copy_features sparse i dense npacked 0 dims = (Inr (), ?d)"
      proof (intro copy_features_ok conjI)
        fix j assume "j < dims"
        then show "i < length (sparse ! j)" using 1(6)[of j] True by simp
        show "npacked < length (dense ! j)" using lt \<open>j < dims\<close> by simp
      qed (use 1(3,4) in simp_all)
      have len: "length ?d = dims" "\<And>j. j < dims \<Longrightarrow> length (?d ! j) = length (dense ! j)"
        using 1(4) by (auto simp: put_features_def)
      have "pack_loop P n sparse dv dims (Suc i) (Suc npacked) ?d
              = (Inr (Suc npacked + length (selected P dv (Suc i) n)),
                 packed sparse ?d (selected P dv (Suc i) n) (Suc npacked))"
        using 1(1)[OF True r eq c[symmetric] refl] 1(3,5,6) 1(7) len s by simp
      moreover have "packed sparse ?d (selected P dv (Suc i) n) (Suc npacked)
                       = packed sparse dense (selected P dv i n) npacked"
        using packed_step[of dense npacked sparse i] lt 1(4) s by simp
      ultimately show ?thesis using True r eq c s
        by (subst pack_loop.simps) simp
    qed
  qed
qed

lemma unpack_loop_ok:
  "length sparse = dims \<Longrightarrow> length dense = dims \<Longrightarrow> n \<le> length P \<Longrightarrow>
   (\<And>j. j < dims \<Longrightarrow> n \<le> length (sparse ! j)) \<Longrightarrow>
   (\<And>j. j < dims \<Longrightarrow> npacked + length (selected P dv i n) \<le> length (dense ! j)) \<Longrightarrow>
   unpack_loop P n dense dv dims i npacked sparse
     = (Inr (), scattered P dv n dense sparse i npacked)"
proof (induction P n dense dv dims i npacked sparse rule: unpack_loop.induct)
  case (1 P n dense dv dims i npacked sparse)
  show ?case
  proof (cases "i < n")
    case False
    then show ?thesis
      by (subst unpack_loop.simps) (simp add: scattered_done)
  next
    case True
    then have r: "rd P i = Inr (P ! i)" using 1(5) by simp
    show ?thesis
    proof (cases "P ! i = dv")
      case False
      have "unpack_loop P n dense dv dims (Suc i) npacked sparse
              = (Inr (), scattered P dv n dense sparse (Suc i) npacked)"
        using 1(2)[OF True r False] 1(3-7) True False by (simp add: selected_step)
      with True r False show ?thesis
        by (subst unpack_loop.simps) (simp add: scattered_skip)
    next
      case eq: True
      let ?s = "put_features dense npacked sparse i 0 dims"
      have s: "selected P dv i n = i # selected P dv (Suc i) n"
        using True eq by (simp add: selected_step)
      have lt: "\<And>j. j < dims \<Longrightarrow> npacked < length (dense ! j)"
        using 1(7) s by fastforce
      have c: "copy_features dense npacked sparse i 0 dims = (Inr (), ?s)"
      proof (intro copy_features_ok conjI)
        fix j assume "j < dims"
        then show "i < length (sparse ! j)" using 1(6)[of j] True by simp
        show "npacked < length (dense ! j)" using lt \<open>j < dims\<close> by simp
      qed (use 1(3,4) in simp_all)
      have len: "length ?s = dims" "\<And>j. j < dims \<Longrightarrow> length (?s ! j) = length (sparse ! j)"
        using 1(3) by (auto simp: put_features_def)
      have "unpack_loop P n dense dv dims (Suc i) (Suc npacked) ?s
              = (Inr (), scattered P dv n dense ?s (Suc i) (Suc npacked))"
        using 1(1)[OF True r eq c[symmetric] refl] 1(4,5,6) 1(7) len s by simp
      moreover have "scattered P dv n dense ?s (Suc i) (Suc npacked)
                       = scattered P dv n dense sparse i npacked"
      proof -
        have "\<And>j. j < length sparse \<Longrightarrow> i < length (sparse ! j)"
          using 1(3,6) True by fastforce
        from scattered_step[OF True eq this] show ?thesis using 1(3) by simp
      qed
      ultimately show ?thesis using True r eq c
        by (subst unpack_loop.simps) simp
    qed
  qed
qed

lemma pack_host:
  assumes "\<not> isDeviceExecution pf" "length sparse = length dense" "n \<le> length P"
    and "\<forall>b\<in>set sparse. n \<le> length b"
    and "\<forall>b\<in>set dense. length (selected P dv 0 n) \<le> length b"
  shows "pack pf P n sparse dense dv
           = (Inr (length (selected P dv 0 n)), packed sparse dense (selected P dv 0 n) 0)"
  using assms pack_loop_ok[of sparse "length dense" dense n P 0 dv 0]
  by (simp add: pack_def)

lemma unpack_host:
  assumes "\<not> isDeviceExecution pf" "length sparse = length dense" "n \<le> length P"
    and "\<forall>b\<in>set sparse. n \<le> length b"
    and "\<forall>b\<in>set dense. length (selected P dv 0 n) \<le> length b"
  shows "unpack pf P n dense sparse dv = (Inr (), scattered P dv n dense sparse 0 0)"
  using assms unpack_loop_ok[of sparse "length dense" dense n P 0 dv 0]
  by (simp add: unpack_def)

lemma pack_nothing:
  "\<not> isDeviceExecution pf \<Longrightarrow> length sparse = length dense \<Longrightarrow>
   pack pf predicate 0 sparse dense denseVal = (Inr 0, dense)"
  by (simp add: pack_def pack_loop.simps)

lemma unpack_nothing:
  "\<not> isDeviceExecution pf \<Longrightarrow> length sparse = length dense \<Longrightarrow>
   unpack pf predicate 0 dense sparse denseVal = (Inr (), sparse)"
  by (simp add: unpack_def unpack_loop.simps)

lemma pack_loop_error:
  "fst (pack_loop P n sparse dv dims i npacked dense) = Inl e \<Longrightarrow> e = OutOfBounds"
proof (induction P n sparse dv dims i npacked dense rule: pack_loop.induct)
  case (1 P n sparse dv dims i npacked dense)
  from "1.prems" show ?case
    apply (subst (asm) pack_loop.simps)
    apply (auto split: if_splits sum.splits prod.splits dest: rd_error "1.IH")
    apply (metis copy_features_error fst_conv)
    done
qed

lemma unpack_loop_error:
  "fst (unpack_loop P n dense dv dims i npacked sparse) = Inl e \<Longrightarrow> e = OutOfBounds"
proof (induction P n dense dv dims i npacked sparse rule: unpack_loop.induct)
  case (1 P n dense dv dims i npacked sparse)
  from "1.prems" show ?case
    apply (subst (asm) unpack_loop.simps)
    apply (auto split: if_splits sum.splits prod.splits dest: rd_error "1.IH")
    apply (metis copy_features_error fst_conv)
    done
qed

subsection \<open>The host loops of Variant 2\<close>

lemma pack_indices_loop_ok:
  "length sparse = dims \<Longrightarrow> length dense = dims \<Longrightarrow> n \<le> length P \<Longrightarrow> n \<le> 2147483648 \<Longrightarrow>
   (\<And>j. j < dims \<Longrightarrow> n \<le> length (sparse ! j)) \<Longrightarrow>
   (\<And>j. j < dims \<Longrightarrow> npacked + length (selected P dv i n) \<le> length (dense ! j)) \<Longrightarrow>
   npacked + length (selected P dv i n) \<le> length idx \<Longrightarrow>
   pack_indices_loop P n sparse dv dims i npacked dense idx
     = (Inr (npacked + length (selected P dv i n)),
        packed sparse dense (selected P dv i n) npacked,
        recorded idx (selected P dv i n) npacked)"
proof (induction P n sparse dv dims i npacked dense idx rule: pack_indices_loop.induct)
  case (1 P n sparse dv dims i npacked dense idx)
  show ?case
  proof (cases "i < n")
    case False
    then show ?thesis
      by (subst pack_indices_loop.simps) (simp add: selected_empty packed_Nil recorded_Nil)
  next
    case True
    then have r: "rd P i = Inr (P ! i)" using "1.prems"(3) by simp
    show ?thesis
    proof (cases "P ! i = dv")
      case False
      have "pack_indices_loop P n sparse dv dims (Suc i) npacked dense idx
              = (Inr (npacked + length (selected P dv (Suc i) n)),
                 packed sparse dense (selected P dv (Suc i) n) npacked,
                 recorded idx (selected P dv (Suc i) n) npacked)"
        using "1.IH"(2)[OF True r False] "1.prems" True False by (simp add: selected_step)
      with True r False show ?thesis
        by (subst pack_indices_loop.simps) (simp add: selected_step)
    next
      case eq: True
      let ?d = "put_features sparse i dense npacked 0 dims"
      let ?idx = "idx[npacked := int i]"
      have s: "selected P dv i n = i # selected P dv (Suc i) n"
        using True eq by (simp add: selected_step)
      have lt: "\<And>j. j < dims \<Longrightarrow> npacked < length (dense ! j)"
        using "1.prems"(6) s by fastforce
      have li: "npacked < length idx"
        using "1.prems"(7) s by simp
      have c: "copy_features sparse i dense npacked 0 dims = (Inr (), ?d)"
      proof (intro copy_features_ok conjI)
        fix j assume "j < dims"
        then show "i < length (sparse ! j)" using "1.prems"(5)[of j] True by simp
        show "npacked < length (dense ! j)" using lt \<open>j < dims\<close> by simp
      qed (use "1.prems"(1,2) in simp_all)
      have "int i \<le> INT_MAX" using True "1.prems"(4) by (simp add: INT_MAX_def)
      then have ti: "to_int (int i) = int i"
        by (intro to_int_id) (simp_all add: INT_MIN_def)
      have w: "wr idx npacked (to_int (int i)) = Inr ?idx"
        using li by (simp add: ti)
      have len: "length ?d = dims" "\<And>j. j < dims \<Longrightarrow> length (?d ! j) = length (dense ! j)"
        using "1.prems"(2) by (auto simp: put_features_def)
      have "pack_indices_loop P n sparse dv dims (Suc i) (Suc npacked) ?d ?idx
              = (Inr (Suc npacked + length (selected P dv (Suc i) n)),
                 packed sparse ?d (selected P dv (Suc i) n) (Suc npacked),
                 recorded ?idx (selected P dv (Suc i) n) (Suc npacked))"
        using "1.IH"(1)[OF True r eq c[symmetric] refl w] "1.prems" len s by simp
      moreover have "packed sparse ?d (selected P dv (Suc i) n) (Suc npacked)
                       = packed sparse dense (selected P dv i n) npacked"
        using packed_step[of dense npacked sparse i] lt "1.prems"(2) s by simp
      moreover have "recorded ?idx (selected P dv (Suc i) n) (Suc npacked)
                       = recorded idx (selected P dv i n) npacked"
        using recorded_step[OF li] s by simp
      ultimately show ?thesis using True r eq c s w
        by (subst pack_indices_loop.simps) simp
    qed
  qed
qed

lemma unpack_indices_features_copies:
  "i < length idx \<Longrightarrow> 0 \<le> idx ! i \<Longrightarrow>
   unpack_indices_features idx dense i sparse j dims
     = copy_features dense i sparse (nat (idx ! i)) j dims"
proof (induction idx dense i sparse j dims rule: unpack_indices_features.induct)
  case (1 idx dense i sparse j dims)
  show ?case
    using "1.prems"
    by (subst unpack_indices_features.simps, subst copy_features.simps)
       (auto split: sum.splits intro: "1.IH")
qed

lemma unpack_indices_loop_simulates:
  assumes "n \<le> length P"
    and "length (selected P dv 0 n) \<le> length idx"
    and "\<And>q. q < length (selected P dv 0 n) \<Longrightarrow> idx ! q = int (selected P dv 0 n ! q)"
  shows "npacked = length (selected P dv 0 i) \<Longrightarrow> i \<le> n \<Longrightarrow>
         unpack_indices_loop idx (length (selected P dv 0 n)) dense dims npacked sparse
           = unpack_loop P n dense dv dims i npacked sparse"
  using assms
proof (induction P n dense dv dims i npacked sparse rule: unpack_loop.induct)
  case (1 P n dense dv dims i npacked sparse)
  note np = "1.prems"(1) and le = "1.prems"(2) and a = "1.prems"(3-5)
  let ?K = "length (selected P dv 0 n)"
  show ?case
  proof (cases "i < n")
    case False
    then have "i = n" using le by simp
    then show ?thesis using np
      by (subst unpack_indices_loop.simps, subst unpack_loop.simps) simp
  next
    case True
    then have r: "rd P i = Inr (P ! i)" using a(1) by simp
    show ?thesis
    proof (cases "P ! i = dv")
      case False
      have "npacked = length (selected P dv 0 (Suc i))"
        using False np by (simp add: selected_Suc_right)
      moreover have "Suc i \<le> n" using True by simp
      ultimately have "unpack_indices_loop idx ?K dense dims npacked sparse
              = unpack_loop P n dense dv dims (Suc i) npacked sparse"
        by (rule "1.IH"(2)[OF True r False _ _ a])
      with True r False show ?thesis
        by (subst unpack_loop.simps) simp
    next
      case eq: True
      have rank: "npacked < ?K" "selected P dv 0 n ! npacked = i"
        using selected_nth_rank[OF True eq] np by simp_all
      have ix: "npacked < length idx" "idx ! npacked = int i"
        using rank a(2,3) by simp_all
      have f: "unpack_indices_features idx dense npacked sparse 0 dims
                 = copy_features dense npacked sparse i 0 dims"
        using unpack_indices_features_copies[of npacked idx dense sparse 0 dims] ix by simp
      have sn: "Suc npacked = length (selected P dv 0 (Suc i))"
        using eq np by (simp add: selected_Suc_right)
      show ?thesis
      proof (cases "copy_features dense npacked sparse i 0 dims")
        case (Pair x sparse')
        show ?thesis
        proof (cases x)
          case (Inl e)
          with Pair True r eq rank(1) f show ?thesis
            by (subst unpack_indices_loop.simps, subst unpack_loop.simps) simp
        next
          case (Inr u)
          have "Suc i \<le> n" using True by simp
          then have "unpack_indices_loop idx ?K dense dims (Suc npacked) sparse'
                  = unpack_loop P n dense dv dims (Suc i) (Suc npacked) sparse'"
            by (rule "1.IH"(1)[OF True r eq Pair[symmetric] Inr sn _ a])
          with Pair Inr True r eq rank(1) f show ?thesis
            by (subst unpack_indices_loop.simps, subst unpack_loop.simps) simp
        qed
      qed
    qed
  qed
qed

lemma pack_indices_host:
  assumes "\<not> isDeviceExecution pf" "length sparse = length dense" "int (length sparse) \<le> INT_MAX"
    and "n \<le> length P" "n \<le> 2147483648"
    and "\<forall>b\<in>set sparse. n \<le> length b"
    and "\<forall>b\<in>set dense. length (selected P dv 0 n) \<le> length b"
    and "length (selected P dv 0 n) \<le> length idx"
  shows "pack_indices pf P idx n sparse dense dv
           = (Inr (length (selected P dv 0 n)), packed sparse dense (selected P dv 0 n) 0,
              recorded idx (selected P dv 0 n) 0)"
  using assms pack_indices_loop_ok[of sparse "length dense" dense n P 0 dv 0 idx]
  by (simp add: pack_indices_def dims_as_int)

lemma unpack_indices_host:
  assumes "\<not> isDeviceExecution pf" "length sparse = length dense" "int (length sparse) \<le> INT_MAX"
    and "n \<le> length P"
    and "length (selected P dv 0 n) \<le> length idx"
    and "\<And>q. q < length (selected P dv 0 n) \<Longrightarrow> idx ! q = int (selected P dv 0 n ! q)"
  shows "unpack_indices pf idx (length (selected P dv 0 n)) dense sparse dv
           = unpack pf P n dense sparse dv"
proof -
  have "unpack_indices_loop idx (length (selected P dv 0 n)) dense (length sparse) 0 sparse
          = unpack_loop P n dense dv (length sparse) 0 0 sparse"
    using assms(4,5,6) by (intro unpack_indices_loop_simulates) (simp_all add: selected_self)
  then show ?thesis
    using assms(1,2,3) by (simp add: unpack_indices_def unpack_def dims_as_int)
qed

lemma pack_indices_loop_error:
  "fst (pack_indices_loop P n sparse dv dims i npacked dense idx) = Inl e \<Longrightarrow> e = OutOfBounds"
proof (induction P n sparse dv dims i npacked dense idx rule: pack_indices_loop.induct)
  case (1 P n sparse dv dims i npacked dense idx)
  from "1.prems" show ?case
    apply (subst (asm) pack_indices_loop.simps)
    apply (auto split: if_splits sum.splits prod.splits dest: rd_error wr_error "1.IH")
    apply (metis copy_features_error fst_conv)
    done
qed

lemma unpack_indices_features_error:
  "fst (unpack_indices_features idx dense i sparse j dims) = Inl e \<Longrightarrow> e = OutOfBounds"
proof (induction idx dense i sparse j dims rule: unpack_indices_features.induct)
  case (1 idx dense i sparse j dims)
  from "1.prems" show ?case
    by (subst (asm) unpack_indices_features.simps)
       (auto split: if_splits sum.splits dest: rd_error rd2_error wr2_error "1.IH")
qed

lemma unpack_indices_loop_error:
  "fst (unpack_indices_loop idx nPacked dense dims i sparse) = Inl e \<Longrightarrow> e = OutOfBounds"
proof (induction idx nPacked dense dims i sparse rule: unpack_indices_loop.induct)
  case (1 idx nPacked dense dims i sparse)
  from "1.prems" show ?case
    apply (subst (asm) unpack_indices_loop.simps)
    apply (auto split: if_splits sum.splits prod.splits dest: "1.IH")
    apply (metis unpack_indices_features_error fst_conv)
    done
qed

lemma pack_indices_loop_skips:
  assumes "\<And>p. p < m \<Longrightarrow> p < length P \<and> P ! p \<noteq> dv" and "m \<le> n"
  shows "i \<le> m \<Longrightarrow>
         pack_indices_loop P n sparse dv dims i npacked dense idx
           = pack_indices_loop P n sparse dv dims m npacked dense idx"
proof (induction "m - i" arbitrary: i)
  case 0
  then show ?case by simp
next
  case (Suc d)
  then have lt: "i < m" by simp
  then have "i < n" "rd P i = Inr (P ! i)" "P ! i \<noteq> dv"
    using assms(1)[of i] assms(2) by auto
  moreover have "pack_indices_loop P n sparse dv dims (Suc i) npacked dense idx
                   = pack_indices_loop P n sparse dv dims m npacked dense idx"
    using Suc lt by (intro Suc.hyps(1)) simp_all
  ultimately show ?case
    by (subst pack_indices_loop.simps) simp
qed

lemma index_beyond_int:
  fixes a b c :: int
  assumes "N = 2147483648"
  shows "fst (unpack_indices host_platform
                (snd (snd (pack_indices host_platform (replicate N True @ [False]) [0] (Suc N)
                             [replicate N a @ [b]] [[c]] False)))
                1
                (fst (snd (pack_indices host_platform (replicate N True @ [False]) [0] (Suc N)
                             [replicate N a @ [b]] [[c]] False)))
                [replicate (Suc N) a] False) = Inl OutOfBounds"
    and "fst (unpack host_platform (replicate N True @ [False]) (Suc N)
                (snd (pack host_platform (replicate N True @ [False]) (Suc N)
                        [replicate N a @ [b]] [[c]] False))
                [replicate (Suc N) a] False) = Inr ()"
    and "fst (pack host_platform (replicate N True @ [False]) (Suc N)
                        [replicate N a @ [b]] [[c]] False) = Inr 1"
    and "fst (pack_indices host_platform (replicate N True @ [False]) [0] (Suc N)
                             [replicate N a @ [b]] [[c]] False) = Inr 1"
proof -
  let ?P = "replicate N True @ [False]"
  let ?X = "[replicate N a @ [b]]"
  have h: "\<not> isDeviceExecution host_platform"
    by (simp add: host_platform_def)
  have d: "to_size_t (to_int 1) = 1"
    by (simp add: to_int_def to_size_t_def)
  have skip: "pack_indices_loop ?P (Suc N) ?X False (Suc 0) 0 0 [[c]] [0]
                = pack_indices_loop ?P (Suc N) ?X False (Suc 0) N 0 [[c]] [0]"
    by (intro pack_indices_loop_skips) (simp_all add: nth_append)
  have ti: "to_int (int N) = - 2147483648"
    by (simp add: assms to_int_def)
  have fin: "pack_indices_loop ?P (Suc N) ?X False dims (Suc N) npacked dense idx
               = (Inr npacked, dense, idx)" for dims npacked dense idx
    by (subst pack_indices_loop.simps) simp
  have cp: "copy_features ?X N [[c]] 0 0 (Suc 0) = (Inr (), [[b]])"
    by (subst copy_features.simps, subst copy_features.simps)
       (simp add: rd_def wr_def rd2_def wr2_def nth_append)
  have last: "pack_indices_loop ?P (Suc N) ?X False (Suc 0) N 0 [[c]] [0]
                = (Inr 1, [[b]], [- 2147483648])"
    by (subst pack_indices_loop.simps) (simp add: rd_def wr_def nth_append ti cp fin)
  have p2: "pack_indices host_platform ?P [0] (Suc N) ?X [[c]] False
              = (Inr 1, [[b]], [- 2147483648])"
    using h by (simp add: pack_indices_def d skip last)
  have u2: "unpack_indices host_platform [- 2147483648] 1 [[b]] [replicate (Suc N) a] False
              = (Inl OutOfBounds, [replicate (Suc N) a])"
    using h
    by (simp add: unpack_indices_def to_int_def to_size_t_def unpack_indices_loop.simps
          unpack_indices_features.simps rd_def)
  show "fst (unpack_indices host_platform
                (snd (snd (pack_indices host_platform ?P [0] (Suc N) ?X [[c]] False))) 1
                (fst (snd (pack_indices host_platform ?P [0] (Suc N) ?X [[c]] False)))
                [replicate (Suc N) a] False) = Inl OutOfBounds"
    by (simp only: p2 u2 fst_conv snd_conv)
  show "fst (pack_indices host_platform ?P [0] (Suc N) ?X [[c]] False) = Inr 1"
    by (simp only: p2 fst_conv)
  have s: "selected ?P False 0 (Suc N) = [N]"
    using selected_of_last[of N False] by simp
  have p1: "pack host_platform ?P (Suc N) ?X [[c]] False = (Inr 1, packed ?X [[c]] [N] 0)"
    using pack_host[of host_platform ?X "[[c]]" "Suc N" ?P False] h by (simp add: s)
  show "fst (pack host_platform ?P (Suc N) ?X [[c]] False) = Inr 1"
    by (simp only: p1 fst_conv)
  have "unpack host_platform ?P (Suc N) (packed ?X [[c]] [N] 0) [replicate (Suc N) a] False
          = (Inr (), scattered ?P False (Suc N) (packed ?X [[c]] [N] 0) [replicate (Suc N) a] 0 0)"
    using h by (intro unpack_host) (simp_all add: s packed_def)
  then show "fst (unpack host_platform ?P (Suc N) (snd (pack host_platform ?P (Suc N) ?X [[c]] False))
                [replicate (Suc N) a] False) = Inr ()"
    by (simp only: p1 fst_conv snd_conv)
qed

subsection \<open>The partition size\<close>

lemma singleElementBytes_exact:
  assumes "0 < sz" "0 \<le> s" "int sz * s \<le> INT_MAX"
  shows "s \<le> INT_MAX"
    and "to_int (int ((sz * to_size_t s) mod 18446744073709551616)) = int sz * s"
proof -
  have "1 * s \<le> int sz * s"
    using assms(1,2) by (intro mult_right_mono) simp_all
  then show le: "s \<le> INT_MAX" using assms(3) by simp
  have t: "to_size_t s = nat s"
    using assms(2) le by (simp add: to_size_t_id INT_MAX_def SIZE_MAX_def)
  have eq: "int (sz * nat s) = int sz * s" using assms(2) by simp
  have b: "int (sz * nat s) \<le> INT_MAX" unfolding eq by (rule assms(3))
  from b have "int (sz * nat s) < 18446744073709551616"
    unfolding INT_MAX_def by linarith
  then have "sz * nat s < 18446744073709551616"
    by linarith
  then have m: "(sz * to_size_t s) mod 18446744073709551616 = sz * nat s"
    unfolding t by simp
  have "0 \<le> int sz * s" using assms(2) by simp
  then have "to_int (int sz * s) = int sz * s"
    using assms(3) by (intro to_int_id) (simp_all add: INT_MIN_def)
  then show "to_int (int ((sz * to_size_t s) mod 18446744073709551616)) = int sz * s"
    unfolding m eq .
qed

lemma computePartitionSize_in_range:
  assumes "0 < sizeof_TypeValue"
    and "0 \<le> numIFeatures" and "0 \<le> numOFeatures"
    and "0 \<le> pSize" and "pSize \<le> INT_MAX"
    and "int sizeof_TypeValue * (numIFeatures + numOFeatures) + int sizeof_int \<le> INT_MAX"
  shows "computePartitionSize sizeof_TypeValue numIFeatures numOFeatures True pSize
           = Inr (pSize div (int sizeof_TypeValue * (numIFeatures + numOFeatures) + int sizeof_int)) \<and>
         (0 < numIFeatures + numOFeatures \<longrightarrow>
          computePartitionSize sizeof_TypeValue numIFeatures numOFeatures False pSize
           = Inr (pSize div (int sizeof_TypeValue * (numIFeatures + numOFeatures))))"
proof -
  let ?s = "numIFeatures + numOFeatures"
  let ?b = "int sizeof_TypeValue * ?s"
  have s0: "0 \<le> ?s" using assms(2,3) by simp
  have b0: "0 \<le> ?b" using s0 by simp
  have bm: "?b \<le> INT_MAX" using assms(6) by (simp add: sizeof_int_def)
  note e = singleElementBytes_exact[OF assms(1) s0 bm]
  have range: "\<not> (?s < INT_MIN \<or> INT_MAX < ?s)"
    using s0 e(1) by (simp add: INT_MIN_def)
  have d: "(to_size_t ?b + 4) mod 18446744073709551616 = nat ?b + 4"
    using b0 bm by (simp add: to_size_t_id INT_MAX_def SIZE_MAX_def)
  have p: "to_size_t pSize = nat pSize"
    using assms(4,5) by (simp add: to_size_t_id INT_MAX_def SIZE_MAX_def)
  have q: "int (nat pSize div (nat ?b + 4)) = pSize div (?b + 4)"
    using assms(4) b0 by (simp add: zdiv_int)
  have "int (nat pSize div (nat ?b + 4)) \<le> int (nat pSize)"
    by (intro iffD2[OF of_nat_le_iff] div_le_dividend)
  then have "0 \<le> pSize div (?b + 4)" "pSize div (?b + 4) \<le> pSize"
    using assms(4) b0 unfolding q by (simp_all add: pos_imp_zdiv_nonneg_iff)
  then have r: "to_int (pSize div (?b + 4)) = pSize div (?b + 4)"
    using assms(5) by (intro to_int_id) (simp_all add: INT_MIN_def)
  have first: "computePartitionSize sizeof_TypeValue numIFeatures numOFeatures True pSize
                 = Inr (pSize div (?b + int sizeof_int))"
    using range by (simp add: computePartitionSize_def Let_def e(2) d p q r sizeof_int_def)
  have second: "computePartitionSize sizeof_TypeValue numIFeatures numOFeatures False pSize
                  = Inr (pSize div ?b)" if "0 < ?s"
  proof -
    have "0 < ?b" using that assms(1) by simp
    moreover have "pSize \<noteq> INT_MIN" using assms(4) by (simp add: INT_MIN_def)
    ultimately show ?thesis
      using range assms(1,4) that
      by (simp add: computePartitionSize_def Let_def e(2) int_div_nonneg)
  qed
  from first second show ?thesis by simp
qed

lemma partition_size_of_the_pipeline:
  assumes "0 \<le> pSize" "pSize \<le> INT_MAX"
  shows "computePartitionSize sizeof_double 2 4 True pSize = Inr (pSize div 52)"
  using computePartitionSize_in_range[of sizeof_double 2 4 pSize] assms
  by (simp add: sizeof_double_def sizeof_int_def INT_MAX_def)

subsection \<open>Allocation and the partition loop\<close>

lemma allocate_ok:
  assumes "0 \<le> count" "count \<le> INT_MAX" "0 < sizeof_T" "sizeof_T \<le> 8"
  shows "allocate uninit sizeof_T count = Inr (map uninit [0..<nat count])"
proof -
  have t: "to_size_t count = nat count"
    using assms(1,2) by (simp add: to_size_t_id INT_MAX_def SIZE_MAX_def)
  have "nat count \<le> 2147483647"
    using assms(1,2) by (simp add: INT_MAX_def)
  then have "nat count * sizeof_T \<le> 2147483647 * 8"
    using assms(4) by (intro mult_mono) simp_all
  then have b: "nat count * sizeof_T < 18446744073709551616"
       and c: "\<not> PTRDIFF_MAX < nat count * sizeof_T"
    by (simp_all add: PTRDIFF_MAX_def)
  show ?thesis
    using b c assms(3) by (simp add: allocate_def Let_def t)
qed

lemma allocate_length:
  assumes "allocate uninit sizeof_double count = Inr buffer" "0 \<le> count" "count \<le> INT_MAX"
  shows "length buffer = nat count"
  using assms allocate_ok[of count sizeof_double uninit]
  by (auto simp: sizeof_double_def)

lemma partition_loop_returns:
  assumes "0 < partitionElements"
  shows "\<exists>r. partition_loop pf app mat_idx num_data inputs P partitionElements pId outputs trace
               = Some r"
proof (induction "nat (num_data - pId)" arbitrary: pId outputs trace rule: less_induct)
  case less
  show ?case
  proof (cases "pId < num_data")
    case False
    then show ?thesis by (subst partition_loop.simps) simp
  next
    case True
    show ?thesis
    proof (cases "partition_body pf app mat_idx num_data inputs P partitionElements pId outputs trace")
      case (Inl e)
      with True show ?thesis by (subst partition_loop.simps) simp
    next
      case (Inr r)
      obtain outputs' trace' where r: "r = (outputs', trace')" by (cases r)
      show ?thesis
      proof (cases "INT_MAX < pId + partitionElements \<or> pId + partitionElements < INT_MIN")
        case True
        with \<open>pId < num_data\<close> Inr r show ?thesis by (subst partition_loop.simps) simp
      next
        case False
        have "nat (num_data - (pId + partitionElements)) < nat (num_data - pId)"
          using assms \<open>pId < num_data\<close> by simp
        from less[OF this, of outputs' trace'] False \<open>pId < num_data\<close> Inr r show ?thesis
          by (subst partition_loop.simps) simp
      qed
    qed
  qed
qed

lemma partition_body_of_no_element:
  assumes "\<not> isDeviceExecution pf" and "pId < num_data"
    and "length inputs = 2" and "length outputs = 4"
    and "at_index (eoses app) mat_idx = Inr (Some eos)"
    and "at_index (surrogates app) mat_idx = Inr surrogate"
    and "\<forall>Eval. surrogate = Some Eval \<longrightarrow>
           (\<forall>elements ins outs. length (Eval elements ins outs) = length outs)"
  shows "\<exists>outputs' trace'.
           partition_body pf app mat_idx num_data inputs P 0 pId outputs trace
             = Inr (outputs', trace') \<and> length outputs' = 4"
proof -
  have a: "allocate (uninit_value pf) sizeof_double 0 = Inr []"
    by (simp add: allocate_def to_size_t_def PTRDIFF_MAX_def sizeof_double_def)
  have m: "min 0 (num_data - pId) = 0" using assms(2) by simp
  have z: "to_size_t 0 = 0" by (simp add: to_size_t_def)
  have p: "pack pf (drop (nat pId) P) 0 (map (drop (nat pId)) inputs) [[], []] False
             = (Inr 0, [[], []])"
    using assms(1,3) by (simp add: pack_nothing)
  obtain Ep Es Eb Et where e: "eos (int 0) [] [] [] [] [] [] = (Ep, Es, Eb, Et)"
    by (metis prod_cases4)
  show ?thesis
  proof (cases surrogate)
    case None
    have u: "unpack pf (drop (nat pId) P) 0 [Ep, Es, Eb, Et] (map (drop (nat pId)) outputs) False
               = (Inr (), map (drop (nat pId)) outputs)"
      using assms(1,4) by (simp add: unpack_nothing)
    show ?thesis
      using assms(4,5,6) None e
      by (simp add: partition_body_def m a z p u rd_def)
  next
    case (Some Eval)
    let ?S = "Eval 0 (map (drop (nat pId)) inputs) (map (drop (nat pId)) outputs)"
    have l: "length ?S = 4" using assms(4,7) Some by simp
    have u: "unpack pf (drop (nat pId) P) 0 [Ep, Es, Eb, Et] ?S False = (Inr (), ?S)"
      using assms(1) l by (simp add: unpack_nothing)
    show ?thesis
      using assms(4,5,6) Some e l
      by (simp add: partition_body_def m a z p u rd_def)
  qed
qed

lemma partition_loop_stuck:
  assumes "partition_loop pf app mat_idx num_data inputs P partitionElements pId outputs trace
             = Some y"
  shows "\<not> (partitionElements = 0 \<and> pId < num_data \<and> INT_MIN \<le> pId \<and> pId \<le> INT_MAX \<and>
            \<not> isDeviceExecution pf \<and> length inputs = 2 \<and> length outputs = 4 \<and>
            (\<exists>eos. at_index (eoses app) mat_idx = Inr (Some eos)) \<and>
            (\<exists>surrogate. at_index (surrogates app) mat_idx = Inr surrogate \<and>
               (\<forall>Eval. surrogate = Some Eval \<longrightarrow>
                  (\<forall>elements ins outs. length (Eval elements ins outs) = length outs))))"
proof (rule partition_loop.raw_induct
         [where P = "\<lambda>pf app mat_idx num_data inputs P partitionElements pId outputs trace y.
            \<not> (partitionElements = 0 \<and> pId < num_data \<and> INT_MIN \<le> pId \<and> pId \<le> INT_MAX \<and>
            \<not> isDeviceExecution pf \<and> length inputs = 2 \<and> length outputs = 4 \<and>
            (\<exists>eos. at_index (eoses app) mat_idx = Inr (Some eos)) \<and>
            (\<exists>surrogate. at_index (surrogates app) mat_idx = Inr surrogate \<and>
               (\<forall>Eval. surrogate = Some Eval \<longrightarrow>
                  (\<forall>elements ins outs. length (Eval elements ins outs) = length outs))))",
          OF _ assms])
  fix loop :: "'a platform \<Rightarrow> 'a MiniApp \<Rightarrow> int \<Rightarrow> int \<Rightarrow> 'a list list \<Rightarrow> bool list \<Rightarrow> int \<Rightarrow> int
     \<Rightarrow> 'a list list \<Rightarrow> call list \<Rightarrow> (error + 'a list list \<times> call list) option"
  fix pf app mat_idx num_data inputs P partitionElements pId outputs trace y
  assume IH: "\<And>pf app mat_idx num_data inputs P partitionElements pId outputs trace y.
     loop pf app mat_idx num_data inputs P partitionElements pId outputs trace = Some y \<Longrightarrow>
     \<not> (partitionElements = 0 \<and> pId < num_data \<and> INT_MIN \<le> pId \<and> pId \<le> INT_MAX \<and>
            \<not> isDeviceExecution pf \<and> length inputs = 2 \<and> length outputs = 4 \<and>
            (\<exists>eos. at_index (eoses app) mat_idx = Inr (Some eos)) \<and>
            (\<exists>surrogate. at_index (surrogates app) mat_idx = Inr surrogate \<and>
               (\<forall>Eval. surrogate = Some Eval \<longrightarrow>
                  (\<forall>elements ins outs. length (Eval elements ins outs) = length outs))))"
  assume step: "(if pId < num_data
      then case partition_body pf app mat_idx num_data inputs P partitionElements pId outputs trace of
           Inl e \<Rightarrow> Some (Inl e)
           | Inr (outputs', trace') \<Rightarrow>
               if INT_MAX < pId + partitionElements \<or> pId + partitionElements < INT_MIN
               then Some (Inl SignedOverflow)
               else loop pf app mat_idx num_data inputs P partitionElements
                     (pId + partitionElements) outputs' trace'
      else Some (Inr (outputs, trace))) = Some y"
  show "\<not> (partitionElements = 0 \<and> pId < num_data \<and> INT_MIN \<le> pId \<and> pId \<le> INT_MAX \<and>
            \<not> isDeviceExecution pf \<and> length inputs = 2 \<and> length outputs = 4 \<and>
            (\<exists>eos. at_index (eoses app) mat_idx = Inr (Some eos)) \<and>
            (\<exists>surrogate. at_index (surrogates app) mat_idx = Inr surrogate \<and>
               (\<forall>Eval. surrogate = Some Eval \<longrightarrow>
                  (\<forall>elements ins outs. length (Eval elements ins outs) = length outs))))"
  proof
    assume inv: "partitionElements = 0 \<and> pId < num_data \<and> INT_MIN \<le> pId \<and> pId \<le> INT_MAX \<and>
            \<not> isDeviceExecution pf \<and> length inputs = 2 \<and> length outputs = 4 \<and>
            (\<exists>eos. at_index (eoses app) mat_idx = Inr (Some eos)) \<and>
            (\<exists>surrogate. at_index (surrogates app) mat_idx = Inr surrogate \<and>
               (\<forall>Eval. surrogate = Some Eval \<longrightarrow>
                  (\<forall>elements ins outs. length (Eval elements ins outs) = length outs)))"
    then obtain eos surrogate where
      c: "at_index (eoses app) mat_idx = Inr (Some eos)"
         "at_index (surrogates app) mat_idx = Inr surrogate"
         "\<forall>Eval. surrogate = Some Eval \<longrightarrow>
            (\<forall>elements ins outs. length (Eval elements ins outs) = length outs)"
      by blast
    from inv have i: "partitionElements = 0" "pId < num_data" "INT_MIN \<le> pId" "pId \<le> INT_MAX"
      "\<not> isDeviceExecution pf" "length inputs = 2" "length outputs = 4"
      by simp_all
    obtain outputs' trace' where
      b: "partition_body pf app mat_idx num_data inputs P 0 pId outputs trace = Inr (outputs', trace')"
      and l: "length outputs' = 4"
      using partition_body_of_no_element[OF i(5) i(2) i(6) i(7) c] by blast
    from step i(1-4) b
    have "loop pf app mat_idx num_data inputs P partitionElements pId outputs' trace' = Some y"
      by simp
    from IH[OF this] inv l show False by simp
  qed
qed

text \<open>The equations that evaluate the model on a concrete input.\<close>

lemmas eval_simps =
  partition_body_def allocate_def at_index_def pack_def unpack_def
  pack_loop.simps unpack_loop.simps copy_features.simps rd_def wr_def rd2_def wr2_def
  to_size_t_def sizeof_double_def sizeof_bool_def PTRDIFF_MAX_def
  host_platform_def example_app_def constant_eos_def constant_surrogate_def fill_def
  Let_def

section \<open>C1: dispatch between surrogate and physics\<close>

text \<open>
  C1. A partition \<open>[pId, pId + elements)\<close> on the host, for a material with a surrogate
  and a physics evaluator, with caller buffers that hold the partition. \<open>S\<close> is what
  the surrogate leaves in the output views \<^verbatim>\<open>&pPressure[pId]\<close>, ...; it keeps their
  sizes. \<open>(Ep, Es, Eb, Et)\<close> is what the physics evaluator leaves in the four packed
  output buffers when called on the \<open>k\<close> packed input samples; each still holds \<open>k\<close>
  values. Then the partition completes, calls the surrogate and then physics, and at
  position \<open>pId + i\<close> of the partition output \<open>d\<close> holds the surrogate's value
  \<open>S[d][i]\<close> where \<open>P[pId + i]\<close> is true, and the physics value of the packed sample
  that \<open>i\<close> became (its rank among the rejected samples of the partition) where
  \<open>P[pId + i]\<close> is false. Positions before the partition are not written.
\<close>

theorem dispatch_in_partition:
  assumes "\<not> isDeviceExecution pf"
    and "at_index (surrogates app) mat_idx = Inr (Some surrogate)"
    and "at_index (eoses app) mat_idx = Inr (Some eos)"
    and "0 \<le> pId" and "pId < num_data" and "num_data \<le> INT_MAX"
    and "0 < partitionElements"
    and "elements = min partitionElements (num_data - pId)"
    and "length inputs = 2" and "\<forall>b\<in>set inputs. nat (pId + elements) \<le> length b"
    and "length outputs = 4" and "\<forall>b\<in>set outputs. nat (pId + elements) \<le> length b"
    and "nat (pId + elements) \<le> length P"
    and "allocate (uninit_value pf) sizeof_double elements = Inr packed_buffer"
    and "surrogate elements (map (drop (nat pId)) inputs) (map (drop (nat pId)) outputs) = S"
    and "map length S = map (\<lambda>b. length b - nat pId) outputs"
    and "pack pf (drop (nat pId) P) (to_size_t elements) (map (drop (nat pId)) inputs)
           [packed_buffer, packed_buffer] False = (Inr k, packed_inputs1)"
    and "eos (int k) (packed_inputs1 ! 1) (packed_inputs1 ! 0)
           packed_buffer packed_buffer packed_buffer packed_buffer = (Ep, Es, Eb, Et)"
    and "\<forall>b\<in>set [Ep, Es, Eb, Et]. k \<le> length b"
  shows "\<exists>outputs'.
           partition_body pf app mat_idx num_data inputs P partitionElements pId outputs trace
             = Inr (outputs', trace @ [Surrogate_Eval elements, EOS_Eval (int k)]) \<and>
           k = card {q. q < nat elements \<and> \<not> P ! (nat pId + q)} \<and>
           (\<forall>d<4.
              take (nat pId) (outputs' ! d) = take (nat pId) (outputs ! d) \<and>
              (\<forall>i<nat elements.
                 outputs' ! d ! (nat pId + i)
                   = (if P ! (nat pId + i) then S ! d ! i
                      else [Ep, Es, Eb, Et] ! d ! card {q. q < i \<and> \<not> P ! (nat pId + q)})))"
proof -
  let ?m = "nat pId" and ?n = "nat elements"
  let ?pred = "drop ?m P"
  let ?sin = "map (drop ?m) inputs"
  let ?E = "[Ep, Es, Eb, Et]"
  have el: "0 < elements" "elements \<le> INT_MAX" "nat (pId + elements) = ?m + ?n"
    using assms(4-8) by (auto simp: nat_add_distrib)
  have n: "to_size_t elements = ?n"
    using el by (simp add: to_size_t_id INT_MAX_def SIZE_MAX_def)
  have lb: "length packed_buffer = ?n"
    using allocate_length[OF assms(14)] el by simp
  have np: "?n \<le> length ?pred"
    using assms(13) el by simp
  have nin: "\<forall>b\<in>set ?sin. ?n \<le> length b"
    using assms(10) el by auto
  have cnt: "length (selected ?pred False 0 ?n) \<le> ?n"
    by (simp add: selected_def) (metis diff_zero length_filter_le length_upt)
  have pk: "pack pf ?pred ?n ?sin [packed_buffer, packed_buffer] False
              = (Inr (length (selected ?pred False 0 ?n)),
                 packed ?sin [packed_buffer, packed_buffer] (selected ?pred False 0 ?n) 0)"
    using assms(1,9) np nin cnt lb by (intro pack_host) simp_all
  have k: "k = length (selected ?pred False 0 ?n)"
    and pin: "packed_inputs1 = packed ?sin [packed_buffer, packed_buffer] (selected ?pred False 0 ?n) 0"
    using assms(17) pk by (simp_all add: n)
  have lpin: "length packed_inputs1 = 2"
    by (simp add: pin packed_length)
  have lS: "length S = 4"
    using assms(11,16) by (metis length_map)
  have lSd: "length (S ! d) = length (outputs ! d) - ?m" if "d < 4" for d
  proof -
    have "map length S ! d = map (\<lambda>b. length b - ?m) outputs ! d"
      by (simp only: assms(16))
    then show ?thesis using that lS assms(11) by simp
  qed
  have lod: "?m + ?n \<le> length (outputs ! d)" if "d < 4" for d
    using assms(11,12) that el by (metis nth_mem)
  have nS: "\<forall>b\<in>set S. ?n \<le> length b"
  proof
    fix b assume "b \<in> set S"
    then obtain d where "d < 4" "b = S ! d"
      using lS by (metis in_set_conv_nth)
    then show "?n \<le> length b" using lSd[of d] lod[of d] by simp
  qed
  have up: "unpack pf ?pred ?n ?E S False = (Inr (), scattered ?pred False ?n ?E S 0 0)"
    using assms(1,19) lS np nS k by (intro unpack_host) simp_all
  let ?out = "map2 (\<lambda>buffer view. take ?m buffer @ view) outputs
                (scattered ?pred False ?n ?E S 0 0)"
  have body: "partition_body pf app mat_idx num_data inputs P partitionElements pId outputs trace
                = Inr (?out, trace @ [Surrogate_Eval elements, EOS_Eval (int k)])"
    using assms(2,3,14,15,17,18) lpin up
    by (simp add: partition_body_def assms(8)[symmetric] n Let_def)
  have kc: "k = card {q. q < ?n \<and> \<not> P ! (?m + q)}"
    using selected_drop_card[of ?m ?n P False] assms(13) el k by simp
  have od: "?out ! d = take ?m (outputs ! d) @ scattered ?pred False ?n ?E S 0 0 ! d"
    if "d < 4" for d
    using that assms(11) lS by (simp add: scattered_length)
  have pre: "take ?m (?out ! d) = take ?m (outputs ! d)" if "d < 4" for d
    using od[OF that] lod[OF that] by simp
  have val: "?out ! d ! (?m + i)
               = (if P ! (?m + i) then S ! d ! i
                  else ?E ! d ! card {q. q < i \<and> \<not> P ! (?m + q)})"
    if "d < 4" "i < ?n" for d i
  proof -
    have "?out ! d ! (?m + i) = scattered ?pred False ?n ?E S 0 0 ! d ! i"
      using od[OF that(1)] lod[OF that(1)] by (simp add: nth_append)
    also have "\<dots> = (if ?pred ! i = False
                       then ?E ! d ! length (selected ?pred False 0 i) else S ! d ! i)"
      using that lS lSd[OF that(1)] lod[OF that(1)] by (simp add: scattered_nth)
    also have "?pred ! i = P ! (?m + i)"
      using assms(13) el by simp
    also have "length (selected ?pred False 0 i) = card {q. q < i \<and> \<not> P ! (?m + q)}"
      using selected_drop_card[of ?m i P False] assms(13) el that(2) by simp
    finally show ?thesis by auto
  qed
  from body kc pre val show ?thesis by blast
qed

theorem dispatch_in_partition_witness:
  "\<exists>outputs'.
     partition_body host_platform example_app 0 4 [[1, 2, 3, 4], [10, 20, 30, 40]]
         [True, False, True, False] 2 2 [[0, 0, 0, 0], [0, 0, 0, 0], [0, 0, 0, 0], [0, 0, 0, 0]] []
       = Inr (outputs', [Surrogate_Eval 2, EOS_Eval 1]) \<and>
     outputs' ! 0 ! 2 = 7 \<and> outputs' ! 0 ! 3 = 9 \<and> outputs' ! 3 ! 2 = 7 \<and> outputs' ! 3 ! 3 = 9"
proof -
  let ?P = "[True, False, True, False]"
  let ?inputs = "[[1, 2, 3, 4], [10, 20, 30, 40 :: int]]"
  let ?outputs = "[[0, 0, 0, 0], [0, 0, 0, 0], [0, 0, 0, 0], [0, 0, 0, 0 :: int]]"
  let ?S = "[[7, 7], [7, 7], [7, 7], [7, 7 :: int]]"
  have h1: "\<not> isDeviceExecution host_platform"
    by (simp add: host_platform_def)
  have h2: "at_index (surrogates example_app) 0 = Inr (Some (constant_surrogate 7))"
    and h3: "at_index (eoses example_app) 0 = Inr (Some (constant_eos 9))"
    by (simp_all add: example_app_def at_index_def)
  have h4: "(0::int) \<le> 2" and h5: "(2::int) < 4" and h6: "4 \<le> INT_MAX" and h7: "(0::int) < 2"
    and h8: "(2::int) = min 2 (4 - 2)"
    by (simp_all add: INT_MAX_def)
  have h9: "length ?inputs = 2" and h10: "\<forall>b\<in>set ?inputs. nat (2 + 2) \<le> length b"
    and h11: "length ?outputs = 4" and h12: "\<forall>b\<in>set ?outputs. nat (2 + 2) \<le> length b"
    and h13: "nat (2 + 2) \<le> length ?P"
    by simp_all
  have h14: "allocate (uninit_value host_platform) sizeof_double 2 = Inr [0, 0]"
    by (simp add: allocate_def host_platform_def to_size_t_def sizeof_double_def PTRDIFF_MAX_def
          upt_rec)
  have h15: "constant_surrogate 7 2 (map (drop (nat 2)) ?inputs) (map (drop (nat 2)) ?outputs) = ?S"
    by (simp add: constant_surrogate_def fill_def upt_rec)
  have h16: "map length ?S = map (\<lambda>b. length b - nat 2) ?outputs"
    by simp
  have h17: "pack host_platform (drop (nat 2) ?P) (to_size_t 2) (map (drop (nat 2)) ?inputs)
               [[0, 0], [0, 0]] False = (Inr 1, [[4, 0], [40, 0]])"
    by (simp add: eval_simps)
  have h18: "constant_eos 9 (int 1) ([[4, 0], [40, 0]] ! 1) ([[4, 0], [40, 0]] ! 0)
               [0, 0] [0, 0] [0, 0] [0, 0] = ([9, 0], [9, 0], [9, 0], [9, 0])"
    by (simp add: constant_eos_def fill_def upt_rec)
  have h19: "\<forall>b\<in>set [[9, 0], [9, 0], [9, 0], [9, 0 :: int]]. 1 \<le> length b"
    by simp
  note t = dispatch_in_partition[of host_platform example_app 0 "constant_surrogate 7"
             "constant_eos 9" 2 4 2 2 ?inputs ?outputs ?P "[0, 0]" ?S 1 "[[4, 0], [40, 0]]"
             "[9, 0]" "[9, 0]" "[9, 0]" "[9, 0]" "[]",
             OF h1 h2 h3 h4 h5 h6 h7 h8 h9 h10 h11 h12 h13 h14 h15 h16 h17 h18 h19]
  then obtain outputs' where
    b0: "partition_body host_platform example_app 0 4 ?inputs ?P 2 2 ?outputs []
          = Inr (outputs', [] @ [Surrogate_Eval 2, EOS_Eval (int 1)])"
    and v0: "\<forall>d<4.
             take (nat 2) (outputs' ! d) = take (nat 2) (?outputs ! d) \<and>
             (\<forall>i<nat 2.
                outputs' ! d ! (nat 2 + i)
                  = (if ?P ! (nat 2 + i) then ?S ! d ! i
                     else [[9, 0], [9, 0], [9, 0], [9, 0]] ! d
                            ! card {q. q < i \<and> \<not> ?P ! (nat 2 + q)}))"
    by (elim exE conjE)
  have b: "partition_body host_platform example_app 0 4 ?inputs ?P 2 2 ?outputs []
          = Inr (outputs', [Surrogate_Eval 2, EOS_Eval 1])"
    using b0 by simp
  have v: "outputs' ! d ! (nat 2 + i)
                = (if ?P ! (nat 2 + i) then ?S ! d ! i
                   else [[9, 0], [9, 0], [9, 0], [9, 0]] ! d
                          ! card {q. q < i \<and> \<not> ?P ! (nat 2 + q)})"
    if "d < 4" "i < nat 2" for d i
    using v0[rule_format, OF that(1), THEN conjunct2, rule_format, OF that(2)] .
  have "\<not> (q = 0 \<and> \<not> [True, False] ! q)" for q :: nat
    by (cases q) simp_all
  then have "{q::nat. q = 0 \<and> \<not> [True, False] ! q} = {}"
    by blast
  then have c: "card {q::nat. q = 0 \<and> \<not> [True, False] ! q} = 0"
    by (simp only: card.empty)
  from v[of 0 0] v[of 0 1] v[of 3 0] v[of 3 1] c b show ?thesis
    by (intro exI[of _ outputs']) simp
qed

section \<open>C2: the predicate buffer without a UQ cache\<close>

text \<open>
  C2 does not hold of \<^verbatim>\<open>evaluate_inner\<close>. The predicate buffer comes from
  \<^verbatim>\<open>AMS::utilities::allocate\<close> and is written by the UQ cache only; when none is
  registered the partition loop reads what the allocator left there. (The sibling
  \<^verbatim>\<open>evaluate_orig\<close> sets \<^verbatim>\<open>dense_ml_acceptable = false\<close> before the same test.)
  On memory that holds non-zero bytes every sample is taken as accepted; the surrogate's
  output stays in all four output buffers and physics gets 0 samples.
\<close>

theorem predicate_uninitialised_without_uq_cache:
  "at_index (hdcaches example_app) 0 = Inr None \<and>
   uninit_bool host_platform 0 \<and> uninit_bool host_platform 1 \<and>
   evaluate_inner host_platform example_app 0 2 [1, 2] [10, 20] [0, 0] [0, 0] [0, 0] [0, 0]
     = Some (Inr ([[7, 7], [7, 7], [7, 7], [7, 7]], [Surrogate_Eval 2, EOS_Eval 0]))"
proof -
  have c: "computePartitionSize sizeof_double 2 4 True (partitionSize host_platform) = Inr 2"
    by (simp add: computePartitionSize_def Let_def to_int_def to_size_t_def INT_MIN_def INT_MAX_def
          sizeof_int_def sizeof_double_def host_platform_def)
  have b: "partition_body host_platform example_app 0 2 [[1, 2], [10, 20]] [True, True] 2 0
             [[0, 0], [0, 0], [0, 0], [0, 0]] []
           = Inr ([[7, 7], [7, 7], [7, 7], [7, 7]], [Surrogate_Eval 2, EOS_Eval 0])"
    by (simp add: eval_simps)
  have l: "partition_loop host_platform example_app 0 2 [[1, 2], [10, 20]] [True, True] 2 0
             [[0, 0], [0, 0], [0, 0], [0, 0]] []
           = Some (Inr ([[7, 7], [7, 7], [7, 7], [7, 7]], [Surrogate_Eval 2, EOS_Eval 0]))"
    by (subst partition_loop.simps, simp add: b INT_MAX_def INT_MIN_def)
       (subst partition_loop.simps, simp)
  have a: "allocate (uninit_bool host_platform) sizeof_bool 2 = Inr [True, True]"
    by (simp add: allocate_def host_platform_def to_size_t_def sizeof_bool_def PTRDIFF_MAX_def
          upt_rec)
  have h: "at_index (hdcaches example_app) 0 = Inr None"
    by (simp add: example_app_def at_index_def)
  show ?thesis
    by (simp add: evaluate_inner_def a h c l) (simp add: host_platform_def)
qed

section \<open>C3: calls of the physics evaluator\<close>

text \<open>
  C3, as the code has it. A partition that completes has called the physics evaluator
  exactly once, after the surrogate (when one is registered), with the number \<open>k\<close>
  that \<^verbatim>\<open>pack\<close> returned: the call is not guarded by \<open>k > 0\<close>.
\<close>

theorem physics_called_once_in_every_partition:
  assumes "partition_body pf app mat_idx num_data inputs p_ml_acceptable partitionElements pId
             outputs trace = Inr (outputs', trace')"
  shows "\<exists>packed_buffer k packed_inputs1.
           allocate (uninit_value pf) sizeof_double (min partitionElements (num_data - pId))
             = Inr packed_buffer \<and>
           pack pf (drop (nat pId) p_ml_acceptable)
               (to_size_t (min partitionElements (num_data - pId)))
               (map (drop (nat pId)) inputs) [packed_buffer, packed_buffer] False
             = (Inr k, packed_inputs1) \<and>
           trace' = trace
             @ (case at_index (surrogates app) mat_idx of
                  Inr (Some Eval) \<Rightarrow> [Surrogate_Eval (min partitionElements (num_data - pId))]
                | _ \<Rightarrow> [])
             @ [EOS_Eval (int k)]"
  using assms
  by (auto simp: partition_body_def Let_def split: sum.splits prod.splits option.splits)

theorem physics_called_once_in_every_partition_witness:
  "\<exists>packed_buffer k packed_inputs1.
     allocate (uninit_value host_platform) sizeof_double (min 2 (4 - 2)) = Inr packed_buffer \<and>
     pack host_platform (drop (nat 2) [True, False, True, False]) (to_size_t (min 2 (4 - 2)))
         (map (drop (nat 2)) [[1, 2, 3, 4], [10, 20, 30, 40]]) [packed_buffer, packed_buffer] False
       = (Inr k, packed_inputs1) \<and>
     [Surrogate_Eval 2, EOS_Eval 1] = []
       @ (case at_index (surrogates example_app) 0 of
            Inr (Some Eval) \<Rightarrow> [Surrogate_Eval (min 2 (4 - 2))]
          | _ \<Rightarrow> [])
       @ [EOS_Eval (int k)]"
proof -
  have "partition_body host_platform example_app 0 4 [[1, 2, 3, 4], [10, 20, 30, 40]]
          [True, False, True, False] 2 2 [[0, 0, 0, 0], [0, 0, 0, 0], [0, 0, 0, 0], [0, 0, 0, 0]] []
        = Inr ([[0, 0, 7, 9], [0, 0, 7, 9], [0, 0, 7, 9], [0, 0, 7, 9]],
               [Surrogate_Eval 2, EOS_Eval 1])"
    by (simp add: eval_simps)
  from physics_called_once_in_every_partition[OF this] show ?thesis .
qed

text \<open>
  When the UQ cache accepts every sample of a partition, \<^verbatim>\<open>pack\<close> returns 0 and the
  physics evaluator is still called, with 0 samples.
\<close>

theorem physics_called_with_zero_samples:
  "fst (pack host_platform [True, True] 2 [[1, 2], [10, 20]] [[0, 0], [0, 0]] False) = Inr 0 \<and>
   partition_body host_platform example_app 0 2 [[1, 2], [10, 20]] [True, True] 2 0
       [[0, 0], [0, 0], [0, 0], [0, 0]] []
     = Inr ([[7, 7], [7, 7], [7, 7], [7, 7]], [Surrogate_Eval 2, EOS_Eval 0])"
  by (simp add: eval_simps)

section \<open>C4: round trip of pack and unpack\<close>

text \<open>
  C4. On the host, Variant-1 \<^verbatim>\<open>pack\<close> of the sparse buffers \<open>X\<close> into the dense
  buffers \<open>Y\<close>, followed by Variant-1 \<^verbatim>\<open>unpack\<close> of the packed buffers into a
  sparse destination \<open>X'\<close> with the same predicate, the same \<open>n\<close> and the same
  \<open>denseVal\<close>, succeeds; afterwards the destination holds \<open>X[j][i]\<close> at every
  position \<open>i < n\<close> with \<open>predicate[i] = denseVal\<close> and is unchanged at every
  other position. The buffers are as long as the calls need: \<open>n\<close> entries in the
  predicate and in every sparse buffer, and room for the packed elements in every
  dense buffer.
\<close>

theorem pack_unpack_round_trip:
  assumes "\<not> isDeviceExecution pf"
    and "length X = length Y"
    and "length X' = length X"
    and "n \<le> length predicate"
    and "\<forall>b\<in>set X. n \<le> length b"
    and "\<forall>b\<in>set X'. n \<le> length b"
    and "\<forall>b\<in>set Y. card {i. i < n \<and> predicate ! i = denseVal} \<le> length b"
  shows "fst (unpack pf predicate n (snd (pack pf predicate n X Y denseVal)) X' denseVal)
           = Inr () \<and>
         length (snd (unpack pf predicate n (snd (pack pf predicate n X Y denseVal)) X' denseVal))
           = length X' \<and>
         (\<forall>j<length X'.
            length (snd (unpack pf predicate n (snd (pack pf predicate n X Y denseVal)) X' denseVal) ! j)
              = length (X' ! j) \<and>
            (\<forall>i<length (X' ! j).
               snd (unpack pf predicate n (snd (pack pf predicate n X Y denseVal)) X' denseVal) ! j ! i
                 = (if i < n \<and> predicate ! i = denseVal then X ! j ! i else X' ! j ! i)))"
proof -
  let ?is = "selected predicate denseVal 0 n"
  let ?Y' = "packed X Y ?is 0"
  have c: "card {i. i < n \<and> predicate ! i = denseVal} = length ?is"
    by (simp add: selected_card)
  have p: "pack pf predicate n X Y denseVal = (Inr (length ?is), ?Y')"
    using assms by (intro pack_host) (simp_all add: c)
  have u: "unpack pf predicate n ?Y' X' denseVal
             = (Inr (), scattered predicate denseVal n ?Y' X' 0 0)"
    using assms packed_fits[of Y ?is X]
    by (intro unpack_host) (simp_all add: c packed_length)
  have v: "?Y' ! j ! length (selected predicate denseVal 0 i) = X ! j ! i"
    if "j < length X'" "i < n" "predicate ! i = denseVal" for j i
    using that assms(2,3) selected_nth_rank[of i n predicate denseVal]
    by (simp add: packed_nth)
  show ?thesis
    unfolding p u fst_conv snd_conv
    by (auto simp: scattered_length scattered_buffer_length scattered_nth v)
qed

theorem pack_unpack_round_trip_witness:
  "fst (unpack host_platform [True, False, False, True] 4
          (snd (pack host_platform [True, False, False, True] 4 [[1, 2, 3, 4]] [[0, 0]] False))
          [[9, 9, 9, 9]] False) = Inr () \<and>
   snd (unpack host_platform [True, False, False, True] 4
          (snd (pack host_platform [True, False, False, True] 4 [[1, 2, 3, 4]] [[0, 0]] False))
          [[9, 9, 9, 9]] False) ! 0 ! 1 = 2 \<and>
   snd (unpack host_platform [True, False, False, True] 4
          (snd (pack host_platform [True, False, False, True] 4 [[1, 2, 3, 4]] [[0, 0]] False))
          [[9, 9, 9, 9]] False) ! 0 ! 3 = 9"
proof -
  let ?P = "[True, False, False, True]"
  have s: "selected ?P False 0 4 = [1, 2]"
    by (simp add: selected_def upt_rec)
  have k: "card {i. i < 4 \<and> ?P ! i = False} = 2"
    using selected_card[of ?P False 4] s by simp
  have h: "\<not> isDeviceExecution host_platform"
    by (simp add: host_platform_def)
  note t = pack_unpack_round_trip[of host_platform "[[1, 2, 3, 4 :: int]]" "[[0, 0]]"
              "[[9, 9, 9, 9]]" 4 ?P False, unfolded k, OF h]
  have r: "fst (unpack host_platform ?P 4 (snd (pack host_platform ?P 4 [[1, 2, 3, 4]] [[0, 0]] False))
              [[9, 9, 9, 9]] False) = Inr ()"
    and e: "\<forall>i<4. snd (unpack host_platform ?P 4 (snd (pack host_platform ?P 4 [[1, 2, 3, 4]] [[0, 0]] False))
              [[9, 9, 9, 9]] False) ! 0 ! i
             = (if i < 4 \<and> ?P ! i = False then [[1, 2, 3, 4 :: int]] ! 0 ! i else [[9, 9, 9, 9]] ! 0 ! i)"
    using t by simp_all
  from e[rule_format, of 1] e[rule_format, of 3] r show ?thesis by simp
qed

section \<open>C5: the index-materialising variant\<close>

text \<open>
  C5, as the code has it. On the host, for at most \<open>2 ^ 31\<close> samples (every position
  is then an \<^verbatim>\<open>int\<close>, the type of the reverse index table), at most \<open>INT_MAX\<close>
  features, and buffers that hold the samples, the packed elements and their indices:
  Variant-2 \<^verbatim>\<open>pack\<close> returns the same count and leaves the same dense buffers as
  Variant-1 \<^verbatim>\<open>pack\<close>, and Variant-2 \<^verbatim>\<open>unpack\<close> from the recorded indices has the
  same outcome and leaves the same sparse destination buffers as Variant-1
  \<^verbatim>\<open>unpack\<close> with the predicate.
\<close>

theorem index_variant_equivalent:
  assumes "\<not> isDeviceExecution pf"
    and "length X = length Y" and "length X' = length X" and "int (length X) \<le> INT_MAX"
    and "n \<le> length predicate" and "n \<le> 2147483648"
    and "\<forall>b\<in>set X. n \<le> length b"
    and "\<forall>b\<in>set X'. n \<le> length b"
    and "\<forall>b\<in>set Y. card {i. i < n \<and> predicate ! i = denseVal} \<le> length b"
    and "card {i. i < n \<and> predicate ! i = denseVal} \<le> length sparse_indices"
  shows "fst (pack_indices pf predicate sparse_indices n X Y denseVal)
           = Inr (card {i. i < n \<and> predicate ! i = denseVal}) \<and>
         fst (pack pf predicate n X Y denseVal)
           = Inr (card {i. i < n \<and> predicate ! i = denseVal}) \<and>
         fst (snd (pack_indices pf predicate sparse_indices n X Y denseVal))
           = snd (pack pf predicate n X Y denseVal) \<and>
         unpack_indices pf (snd (snd (pack_indices pf predicate sparse_indices n X Y denseVal)))
             (card {i. i < n \<and> predicate ! i = denseVal})
             (fst (snd (pack_indices pf predicate sparse_indices n X Y denseVal))) X' denseVal
           = unpack pf predicate n (snd (pack pf predicate n X Y denseVal)) X' denseVal \<and>
         fst (unpack pf predicate n (snd (pack pf predicate n X Y denseVal)) X' denseVal) = Inr ()"
proof -
  let ?is = "selected predicate denseVal 0 n"
  let ?Y' = "packed X Y ?is 0"
  let ?idx = "recorded sparse_indices ?is 0"
  have c: "card {i. i < n \<and> predicate ! i = denseVal} = length ?is"
    by (simp add: selected_card)
  have p1: "pack pf predicate n X Y denseVal = (Inr (length ?is), ?Y')"
    using assms by (intro pack_host) (simp_all add: c)
  have p2: "pack_indices pf predicate sparse_indices n X Y denseVal = (Inr (length ?is), ?Y', ?idx)"
    using assms by (intro pack_indices_host) (simp_all add: c)
  have u1: "unpack pf predicate n ?Y' X' denseVal
              = (Inr (), scattered predicate denseVal n ?Y' X' 0 0)"
    using assms packed_fits[of Y ?is X]
    by (intro unpack_host) (simp_all add: c packed_length)
  have u2: "unpack_indices pf ?idx (length ?is) ?Y' X' denseVal
              = unpack pf predicate n ?Y' X' denseVal"
    using assms(1-5,10)
    by (intro unpack_indices_host) (simp_all add: c packed_length recorded_length recorded_nth)
  show ?thesis
    unfolding c p1 p2 u2 fst_conv snd_conv by (simp add: u1)
qed

theorem index_variant_equivalent_witness:
  "pack_indices host_platform [True, False, False, True] [0, 0] 4 [[1, 2, 3, 4]] [[0, 0]] False
     = (Inr 2, [[2, 3]], [1, 2]) \<and>
   unpack_indices host_platform [1, 2] 2 [[2, 3]] [[9, 9, 9, 9]] False
     = unpack host_platform [True, False, False, True] 4 [[2, 3]] [[9, 9, 9, 9]] False \<and>
   unpack host_platform [True, False, False, True] 4 [[2, 3]] [[9, 9, 9, 9]] False
     = (Inr (), [[9, 2, 3, 9]])"
proof -
  let ?P = "[True, False, False, True]"
  have s: "selected ?P False 0 4 = [1, 2]"
    by (simp add: selected_def upt_rec)
  have k: "card {i. i < 4 \<and> ?P ! i = False} = 2"
    using selected_card[of ?P False 4] s by simp
  have h: "\<not> isDeviceExecution host_platform"
    by (simp add: host_platform_def)
  have p2: "pack_indices host_platform ?P [0, 0] 4 [[1, 2, 3, 4]] [[0, 0]] False
              = (Inr 2, [[2, 3]], [1, 2])"
    by (simp add: pack_indices_def pack_indices_loop.simps copy_features.simps rd_def wr_def
          rd2_def wr2_def to_int_def to_size_t_def host_platform_def)
  have p1: "pack host_platform ?P 4 [[1, 2, 3, 4]] [[0, 0]] False = (Inr 2, [[2, 3]])"
    by (simp add: eval_simps)
  have u1: "unpack host_platform ?P 4 [[2, 3]] [[9, 9, 9, 9]] False = (Inr (), [[9, 2, 3, 9]])"
    by (simp add: eval_simps)
  note t = index_variant_equivalent[of host_platform "[[1, 2, 3, 4 :: int]]" "[[0, 0]]"
             "[[9, 9, 9, 9]]" 4 ?P False "[0, 0]", unfolded k p1 p2 fst_conv snd_conv, OF h]
  have "unpack_indices host_platform [1, 2] 2 [[2, 3]] [[9, 9, 9, 9]] False
          = unpack host_platform ?P 4 [[2, 3]] [[9, 9, 9, 9]] False"
    using t by (simp add: INT_MAX_def)
  with p2 u1 show ?thesis by simp
qed

text \<open>
  With \<open>2 ^ 31 + 1\<close> samples of which only the last is selected, the position
  \<open>2 ^ 31\<close> is stored in the \<^verbatim>\<open>int\<close> table as \<open>- 2 ^ 31\<close>: both variants pack one
  element, Variant-1 \<^verbatim>\<open>unpack\<close> writes it back, Variant-2 \<^verbatim>\<open>unpack\<close> addresses
  memory before the sparse buffer.
\<close>

theorem index_variant_differs_beyond_int:
  "fst (pack host_platform (replicate 2147483648 True @ [False]) 2147483649
          [replicate 2147483648 0 @ [5]] [[0]] False) = Inr 1 \<and>
   fst (pack_indices host_platform (replicate 2147483648 True @ [False]) [0] 2147483649
          [replicate 2147483648 0 @ [5]] [[0]] False) = Inr 1 \<and>
   fst (unpack host_platform (replicate 2147483648 True @ [False]) 2147483649
          (snd (pack host_platform (replicate 2147483648 True @ [False]) 2147483649
                  [replicate 2147483648 0 @ [5]] [[0]] False))
          [replicate 2147483649 0] False) = Inr () \<and>
   fst (unpack_indices host_platform
          (snd (snd (pack_indices host_platform (replicate 2147483648 True @ [False]) [0]
                       2147483649 [replicate 2147483648 0 @ [5]] [[0]] False)))
          1
          (fst (snd (pack_indices host_platform (replicate 2147483648 True @ [False]) [0]
                       2147483649 [replicate 2147483648 0 @ [5]] [[0]] False)))
          [replicate 2147483649 0] False) = Inl OutOfBounds"
proof -
  have e: "Suc 2147483648 = 2147483649" by simp
  note t = index_beyond_int[of 2147483648 0 5 0, OF refl, unfolded e]
  from t show ?thesis by (intro conjI)
qed

section \<open>C6: count and order of the packed elements\<close>

text \<open>
  C6. On the host, with buffers that hold the \<open>n\<close> samples and the packed ones,
  \<^verbatim>\<open>pack\<close> returns the number of positions \<open>i < n\<close> with
  \<open>predicate[i] = denseVal\<close>. The packed elements are at the front of every dense
  buffer, in ascending order of their source position: they are the sparse values
  at the positions \<open>selected predicate denseVal 0 n\<close>, a strictly increasing list
  of exactly these positions. What lies behind them in a dense buffer is not written.
\<close>

theorem pack_count_and_order:
  assumes "\<not> isDeviceExecution pf"
    and "length sparse = length dense"
    and "n \<le> length predicate"
    and "\<forall>b\<in>set sparse. n \<le> length b"
    and "\<forall>b\<in>set dense. card {i. i < n \<and> predicate ! i = denseVal} \<le> length b"
  shows "fst (pack pf predicate n sparse dense denseVal)
           = Inr (card {i. i < n \<and> predicate ! i = denseVal}) \<and>
         sorted_wrt (<) (selected predicate denseVal 0 n) \<and>
         set (selected predicate denseVal 0 n) = {i. i < n \<and> predicate ! i = denseVal} \<and>
         length (snd (pack pf predicate n sparse dense denseVal)) = length dense \<and>
         (\<forall>j<length dense.
            take (card {i. i < n \<and> predicate ! i = denseVal})
                 (snd (pack pf predicate n sparse dense denseVal) ! j)
              = map (\<lambda>i. sparse ! j ! i) (selected predicate denseVal 0 n) \<and>
            drop (card {i. i < n \<and> predicate ! i = denseVal})
                 (snd (pack pf predicate n sparse dense denseVal) ! j)
              = drop (card {i. i < n \<and> predicate ! i = denseVal}) (dense ! j))"
proof -
  let ?is = "selected predicate denseVal 0 n"
  have c: "card {i. i < n \<and> predicate ! i = denseVal} = length ?is"
    by (simp add: selected_card)
  have p: "pack pf predicate n sparse dense denseVal = (Inr (length ?is), packed sparse dense ?is 0)"
    using assms by (intro pack_host) (simp_all add: c)
  have fit: "\<And>j. j < length dense \<Longrightarrow> length ?is \<le> length (dense ! j)"
    using assms(5) c by simp
  show ?thesis
    using fit
    by (simp add: p c selected_sorted selected_set packed_length packed_take packed_drop)
qed

theorem pack_count_and_order_witness:
  "fst (pack host_platform [True, False, False, True] 4 [[1, 2, 3, 4], [5, 6, 7, 8]]
          [[0, 0, 0], [0, 0, 0]] False) = Inr 2 \<and>
   take 2 (snd (pack host_platform [True, False, False, True] 4 [[1, 2, 3, 4], [5, 6, 7, 8]]
          [[0, 0, 0], [0, 0, 0]] False) ! 0) = [2, 3] \<and>
   take 2 (snd (pack host_platform [True, False, False, True] 4 [[1, 2, 3, 4], [5, 6, 7, 8]]
          [[0, 0, 0], [0, 0, 0]] False) ! 1) = [6, 7]"
proof -
  let ?P = "[True, False, False, True]"
  have s: "selected ?P False 0 4 = [1, 2]"
    by (simp add: selected_def upt_rec)
  have k: "card {i. i < 4 \<and> ?P ! i = False} = 2"
    using selected_card[of ?P False 4] s by simp
  have h: "\<not> isDeviceExecution host_platform"
    by (simp add: host_platform_def)
  note t = pack_count_and_order[of host_platform "[[1, 2, 3, 4], [5, 6, 7, 8 :: int]]"
              "[[0, 0, 0], [0, 0, 0]]" 4 ?P False, unfolded k s, OF h]
  have r: "fst (pack host_platform ?P 4 [[1, 2, 3, 4], [5, 6, 7, 8]] [[0, 0, 0], [0, 0, 0]] False) = Inr 2"
    and e: "\<forall>j<2. take 2 (snd (pack host_platform ?P 4 [[1, 2, 3, 4], [5, 6, 7, 8]] [[0, 0, 0], [0, 0, 0]] False) ! j)
             = map (\<lambda>i. [[1, 2, 3, 4], [5, 6, 7, 8 :: int]] ! j ! i) [1, 2] \<and>
            drop 2 (snd (pack host_platform ?P 4 [[1, 2, 3, 4], [5, 6, 7, 8]] [[0, 0, 0], [0, 0, 0]] False) ! j)
             = drop 2 ([[0, 0, 0], [0, 0, 0 :: int]] ! j)"
    using t by simp_all
  from e have "take 2 (snd (pack host_platform ?P 4 [[1, 2, 3, 4], [5, 6, 7, 8]] [[0, 0, 0], [0, 0, 0]] False) ! 0) = [2, 3]"
    by fastforce
  moreover from e have "take 2 (snd (pack host_platform ?P 4 [[1, 2, 3, 4], [5, 6, 7, 8]] [[0, 0, 0], [0, 0, 0]] False) ! 1) = [6, 7]"
    by fastforce
  ultimately show ?thesis using r by simp
qed

section \<open>C7: shape mismatch\<close>

text \<open>
  C7. Every call of \<^verbatim>\<open>pack\<close> or \<^verbatim>\<open>unpack\<close>, of either variant, whose sparse and
  dense feature vectors differ in length raises \<^verbatim>\<open>std::invalid_argument\<close> and leaves
  every buffer it was given as it was (the check precedes the dispatch to host or
  device). When the two lengths are equal, no call raises \<^verbatim>\<open>std::invalid_argument\<close>,
  whatever its message.
\<close>

theorem shape_mismatch_is_the_only_invalid_argument:
  "(length sparse \<noteq> length dense \<longrightarrow>
      pack pf predicate n sparse dense denseVal
        = (Inl (InvalidArgument ''Packing arrays size mismatch''), dense) \<and>
      unpack pf predicate n dense sparse denseVal
        = (Inl (InvalidArgument ''Packing arrays size mismatch''), sparse) \<and>
      pack_indices pf predicate sparse_indices n sparse dense denseVal
        = (Inl (InvalidArgument ''Packing arrays size mismatch''), dense, sparse_indices) \<and>
      unpack_indices pf sparse_indices nPacked dense sparse denseVal
        = (Inl (InvalidArgument ''Packing arrays size mismatch''), sparse)) \<and>
   (length sparse = length dense \<longrightarrow>
      fst (pack pf predicate n sparse dense denseVal) \<noteq> Inl (InvalidArgument msg) \<and>
      fst (unpack pf predicate n dense sparse denseVal) \<noteq> Inl (InvalidArgument msg) \<and>
      fst (pack_indices pf predicate sparse_indices n sparse dense denseVal)
        \<noteq> Inl (InvalidArgument msg) \<and>
      fst (unpack_indices pf sparse_indices nPacked dense sparse denseVal)
        \<noteq> Inl (InvalidArgument msg))"
proof (intro conjI impI)
  assume eq: "length sparse = length dense"
  show "fst (pack pf predicate n sparse dense denseVal) \<noteq> Inl (InvalidArgument msg)"
    using eq pack_loop_error[of predicate n sparse denseVal "length dense" 0 0 dense "InvalidArgument msg"]
    by (auto simp: pack_def Let_def split: prod.splits)
  show "fst (unpack pf predicate n dense sparse denseVal) \<noteq> Inl (InvalidArgument msg)"
    using eq unpack_loop_error[of predicate n dense denseVal "length dense" 0 0 sparse "InvalidArgument msg"]
    by (auto simp: unpack_def Let_def split: prod.splits)
  show "fst (pack_indices pf predicate sparse_indices n sparse dense denseVal)
          \<noteq> Inl (InvalidArgument msg)"
    using eq pack_indices_loop_error[of predicate n sparse denseVal _ 0 0 dense sparse_indices "InvalidArgument msg"]
    by (auto simp: pack_indices_def Let_def split: prod.splits)
  show "fst (unpack_indices pf sparse_indices nPacked dense sparse denseVal)
          \<noteq> Inl (InvalidArgument msg)"
    using eq unpack_indices_loop_error[of sparse_indices nPacked dense _ 0 sparse "InvalidArgument msg"]
    by (auto simp: unpack_indices_def Let_def split: prod.splits)
qed (simp_all add: pack_def unpack_def pack_indices_def unpack_indices_def)

theorem shape_mismatch_is_the_only_invalid_argument_witness:
  "length [[1, 2], [3, 4 :: int]] \<noteq> length [[0 :: int, 0]] \<and>
   pack host_platform [False, True] 2 [[1, 2], [3, 4]] [[0, 0]] False
     = (Inl (InvalidArgument ''Packing arrays size mismatch''), [[0, 0]]) \<and>
   unpack_indices host_platform [0] 1 [[0, 0]] [[1, 2], [3, 4]] False
     = (Inl (InvalidArgument ''Packing arrays size mismatch''), [[1, 2], [3, 4]]) \<and>
   length [[1, 2 :: int]] = length [[0 :: int, 0]] \<and>
   fst (pack host_platform [False, True] 2 [[1, 2]] [[0, 0]] False)
     \<noteq> Inl (InvalidArgument ''Packing arrays size mismatch'')"
  using shape_mismatch_is_the_only_invalid_argument
          [of "[[1, 2], [3, 4 :: int]]" "[[0, 0]]" host_platform "[False, True]" 2 False "[0]" 1]
        shape_mismatch_is_the_only_invalid_argument
          [of "[[1, 2 :: int]]" "[[0, 0]]" host_platform "[False, True]" 2 False "[0]" 1
              "''Packing arrays size mismatch''"]
  by simp

section \<open>C8: partition size\<close>

text \<open>
  C8, as the code has it. For feature counts \<open>n_in, n_out \<ge> 0\<close> and a budget
  \<open>0 \<le> pSize \<le> INT_MAX\<close>, with \<open>sizeof(V) \<cdot> (n_in + n_out) + sizeof(int)\<close>
  representable as an \<^verbatim>\<open>int\<close>: with the re-index vector the result is
  \<open>\<lfloor>pSize / (sizeof(V) \<cdot> (n_in + n_out) + sizeof(int))\<rfloor>\<close>; without it, and with at
  least one feature, the result is \<open>\<lfloor>pSize / (sizeof(V) \<cdot> (n_in + n_out))\<rfloor>\<close>.
\<close>

theorem computePartitionSize_floor:
  assumes "0 < sizeof_TypeValue"
    and "0 \<le> numIFeatures" and "0 \<le> numOFeatures"
    and "0 \<le> pSize" and "pSize \<le> INT_MAX"
    and "int sizeof_TypeValue * (numIFeatures + numOFeatures) + int sizeof_int \<le> INT_MAX"
  shows "computePartitionSize sizeof_TypeValue numIFeatures numOFeatures True pSize
           = Inr (pSize div (int sizeof_TypeValue * (numIFeatures + numOFeatures) + int sizeof_int)) \<and>
         (0 < numIFeatures + numOFeatures \<longrightarrow>
          computePartitionSize sizeof_TypeValue numIFeatures numOFeatures False pSize
           = Inr (pSize div (int sizeof_TypeValue * (numIFeatures + numOFeatures))))"
  using assms by (rule computePartitionSize_in_range)

theorem computePartitionSize_floor_witness:
  "computePartitionSize 8 2 4 True 16777216 = Inr 322638 \<and>
   computePartitionSize 8 2 4 False 16777216 = Inr 349525"
  using computePartitionSize_floor[of 8 2 4 16777216]
  by (simp add: INT_MAX_def sizeof_int_def)

text \<open>
  The formula does not hold for all feature counts. Without the re-index vector and with
  no feature the divisor is 0. With \<open>2 ^ 29\<close> features of 8 bytes the product
  \<open>2 ^ 32\<close> does not fit the \<^verbatim>\<open>int singleElementBytes\<close>, which becomes 0: the code
  divides the budget by \<^verbatim>\<open>sizeof(int)\<close> alone.
\<close>

theorem computePartitionSize_not_floor_for_all_counts:
  "computePartitionSize 8 0 0 False 16777216 = Inl DivisionByZero \<and>
   computePartitionSize 8 268435456 268435456 True 16777216 = Inr 4194304 \<and>
   computePartitionSize 8 268435456 268435456 True 16777216
     \<noteq> Inr (16777216 div (8 * (268435456 + 268435456) + int sizeof_int))"
  by (simp add: computePartitionSize_def Let_def to_int_def to_size_t_def INT_MIN_def INT_MAX_def
        sizeof_int_def)

section \<open>C9: termination of the partition loop\<close>

text \<open>
  C9. \<^verbatim>\<open>evaluate_inner\<close> on the host, for \<open>num_data > 0\<close> samples of a material with
  a physics evaluator (and a surrogate, if any, that keeps the number of output
  buffers), with a budget \<open>0 \<le> partitionSize \<le> INT_MAX\<close>. The step of the
  partition loop is \<open>computePartitionSize(2, 4) = \<lfloor>partitionSize / 52\<rfloor>\<close>, one sample
  taking \<open>6 \<cdot> sizeof(double) + sizeof(int) = 52\<close> bytes. The call returns (with a
  result or an error) exactly when this step is at least 1. When the budget is below
  the 52 bytes of one sample the step is 0 and the call never returns.
\<close>

theorem partition_loop_terminates_iff_step_positive:
  assumes "0 < num_data" and "num_data \<le> INT_MAX"
    and "0 \<le> partitionSize pf" and "partitionSize pf \<le> INT_MAX"
    and "\<not> isDeviceExecution pf"
    and "at_index (hdcaches app) mat_idx = Inr hdcache"
    and "at_index (surrogates app) mat_idx = Inr surrogate"
    and "\<forall>Eval. surrogate = Some Eval \<longrightarrow>
           (\<forall>elements ins outs. length (Eval elements ins outs) = length outs)"
    and "at_index (eoses app) mat_idx = Inr (Some eos)"
  shows "computePartitionSize sizeof_double 2 4 True (partitionSize pf)
           = Inr (partitionSize pf div 52) \<and>
         ((\<exists>r. evaluate_inner pf app mat_idx num_data pDensity pEnergy
                  pPressure pSoundSpeed2 pBulkmod pTemperature = Some r)
            \<longleftrightarrow> 1 \<le> partitionSize pf div 52) \<and>
         (partitionSize pf < 52 \<longrightarrow>
            partitionSize pf div 52 = 0 \<and>
            evaluate_inner pf app mat_idx num_data pDensity pEnergy
              pPressure pSoundSpeed2 pBulkmod pTemperature = None)"
proof -
  let ?step = "partitionSize pf div 52"
  let ?ev = "evaluate_inner pf app mat_idx num_data pDensity pEnergy
               pPressure pSoundSpeed2 pBulkmod pTemperature"
  have cps: "computePartitionSize sizeof_double 2 4 True (partitionSize pf) = Inr ?step"
    using assms(3,4) by (rule partition_size_of_the_pipeline)
  have al: "allocate (uninit_bool pf) sizeof_bool num_data
              = Inr (map (uninit_bool pf) [0..<nat num_data])"
    using assms(1,2) by (intro allocate_ok) (simp_all add: sizeof_bool_def)
  obtain P tr where ev: "?ev = partition_loop pf app mat_idx num_data [pDensity, pEnergy] P ?step 0
                                 [pPressure, pSoundSpeed2, pBulkmod, pTemperature] tr"
    by (cases hdcache) (simp_all add: evaluate_inner_def al assms(6) cps)
  have step0: "0 \<le> ?step" using assms(3) by (simp add: pos_imp_zdiv_nonneg_iff)
  have pos: "\<exists>r. ?ev = Some r" if "1 \<le> ?step"
    unfolding ev using that by (intro partition_loop_returns) simp
  have stuck: "?ev = None" if "?step = 0"
  proof (rule ccontr)
    assume "?ev \<noteq> None"
    then obtain y where "?ev = Some y" by blast
    from partition_loop_stuck[OF this[unfolded ev]] that assms(1,2,5,7,8,9)
    show False by (auto simp: INT_MIN_def)
  qed
  have iff: "(\<exists>r. ?ev = Some r) \<longleftrightarrow> 1 \<le> ?step"
  proof
    assume "\<exists>r. ?ev = Some r"
    then have "?step \<noteq> 0" using stuck by auto
    with step0 show "1 \<le> ?step" by simp
  qed (rule pos)
  have small: "?step = 0" if "partitionSize pf < 52"
    using that assms(3) by simp
  from cps iff small stuck show ?thesis by blast
qed

theorem partition_loop_terminates_iff_step_positive_witness:
  "(\<exists>r. evaluate_inner host_platform example_app 0 2 [1, 2] [10, 20] [0, 0] [0, 0] [0, 0] [0, 0]
          = Some r) \<and>
   partitionSize host_platform div 52 = 2 \<and>
   partitionSize (host_platform\<lparr>partitionSize := 51\<rparr>) div 52 = 0 \<and>
   evaluate_inner (host_platform\<lparr>partitionSize := 51\<rparr>) example_app 0 2
       [1, 2] [10, 20] [0, 0] [0, 0] [0, 0] [0, 0] = None"
proof -
  have a: "(0::int) < 2" "(2::int) \<le> INT_MAX"
    by (simp_all add: INT_MAX_def)
  have h: "at_index (hdcaches example_app) 0 = Inr None"
    and s: "at_index (surrogates example_app) 0 = Inr (Some (constant_surrogate 7))"
    and e: "at_index (eoses example_app) 0 = Inr (Some (constant_eos 9))"
    by (simp_all add: example_app_def at_index_def)
  have k: "\<forall>Eval. Some (constant_surrogate 7) = Some Eval \<longrightarrow>
             (\<forall>elements ins outs. length (Eval elements ins outs) = length outs)"
    by (auto simp: constant_surrogate_def)
  have b1: "0 \<le> partitionSize host_platform" "partitionSize host_platform \<le> INT_MAX"
    "\<not> isDeviceExecution host_platform" "partitionSize host_platform div 52 = 2"
    by (simp_all add: host_platform_def INT_MAX_def)
  have b2: "0 \<le> partitionSize (host_platform\<lparr>partitionSize := 51\<rparr>)"
    "partitionSize (host_platform\<lparr>partitionSize := 51\<rparr>) \<le> INT_MAX"
    "\<not> isDeviceExecution (host_platform\<lparr>partitionSize := 51\<rparr>)"
    "partitionSize (host_platform\<lparr>partitionSize := 51\<rparr>) < 52"
    by (simp_all add: host_platform_def INT_MAX_def)
  note t1 = partition_loop_terminates_iff_step_positive
              [of 2 host_platform example_app 0 None "Some (constant_surrogate 7)" "constant_eos 9"
                  "[1, 2]" "[10, 20]" "[0, 0]" "[0, 0]" "[0, 0]" "[0, 0]",
               OF a b1(1,2,3) h s k e]
  note t2 = partition_loop_terminates_iff_step_positive
              [of 2 "host_platform\<lparr>partitionSize := 51\<rparr>" example_app 0 None
                  "Some (constant_surrogate 7)" "constant_eos 9"
                  "[1, 2]" "[10, 20]" "[0, 0]" "[0, 0]" "[0, 0]" "[0, 0]",
               OF a b2(1,2,3) h s k e]
  from t1 b1(4) have "\<exists>r. evaluate_inner host_platform example_app 0 2 [1, 2] [10, 20]
                           [0, 0] [0, 0] [0, 0] [0, 0] = Some r"
    by simp
  moreover from t2 b2(4) have "partitionSize (host_platform\<lparr>partitionSize := 51\<rparr>) div 52 = 0 \<and>
      evaluate_inner (host_platform\<lparr>partitionSize := 51\<rparr>) example_app 0 2
       [1, 2] [10, 20] [0, 0] [0, 0] [0, 0] [0, 0] = None"
    by blast
  ultimately show ?thesis using b1(4) by simp
qed

section \<open>C10: the physics evaluator is required\<close>

text \<open>
  C10. When no physics evaluator is registered for the material, no partition
  completes: the only path to the end of the loop body goes through the call
  \<^verbatim>\<open>eoses[mat_idx]->Eval\<close>, which the code does not guard. Once \<^verbatim>\<open>pack\<close> has
  returned, whatever the number of packed samples, the partition ends in the call
  through the null pointer. So \<^verbatim>\<open>evaluate_inner\<close> with at least one sample fails.
  A missing surrogate or UQ cache is tested for and skipped.
\<close>

theorem physics_evaluator_required:
  assumes "at_index (eoses app) mat_idx = Inr None"
  shows "(\<exists>e. partition_body pf app mat_idx num_data inputs p_ml_acceptable partitionElements pId
                outputs trace = Inl e) \<and>
         (\<forall>packed_buffer surrogate k packed_inputs1.
            allocate (uninit_value pf) sizeof_double (min partitionElements (num_data - pId))
              = Inr packed_buffer \<and>
            at_index (surrogates app) mat_idx = Inr surrogate \<and>
            pack pf (drop (nat pId) p_ml_acceptable)
                (to_size_t (min partitionElements (num_data - pId)))
                (map (drop (nat pId)) inputs) [packed_buffer, packed_buffer] False
              = (Inr k, packed_inputs1) \<longrightarrow>
            partition_body pf app mat_idx num_data inputs p_ml_acceptable partitionElements pId
                outputs trace = Inl NullPointer) \<and>
         (0 < num_data \<longrightarrow>
            (\<exists>e. evaluate_inner pf app mat_idx num_data pDensity pEnergy
                    pPressure pSoundSpeed2 pBulkmod pTemperature = Some (Inl e)))"
proof (intro conjI allI impI)
  show b: "\<exists>e. partition_body pf app mat_idx num_data inputs p_ml_acceptable partitionElements pId
                outputs trace = Inl e"
    for inputs p_ml_acceptable partitionElements pId outputs trace
    using assms
    by (auto simp: partition_body_def Let_def split: sum.splits prod.splits option.splits)
  show "partition_body pf app mat_idx num_data inputs p_ml_acceptable partitionElements pId
                outputs trace = Inl NullPointer"
    if "allocate (uninit_value pf) sizeof_double (min partitionElements (num_data - pId))
              = Inr packed_buffer \<and>
            at_index (surrogates app) mat_idx = Inr surrogate \<and>
            pack pf (drop (nat pId) p_ml_acceptable)
                (to_size_t (min partitionElements (num_data - pId)))
                (map (drop (nat pId)) inputs) [packed_buffer, packed_buffer] False
              = (Inr k, packed_inputs1)"
    for packed_buffer surrogate k packed_inputs1
    using assms that
    by (auto simp: partition_body_def Let_def split: sum.splits prod.splits option.splits)
  show "\<exists>e. evaluate_inner pf app mat_idx num_data pDensity pEnergy
                    pPressure pSoundSpeed2 pBulkmod pTemperature = Some (Inl e)"
    if "0 < num_data"
  proof -
    have "\<exists>e. partition_loop pf app mat_idx num_data ins P part 0 outs tr = Some (Inl e)"
      for ins P part outs tr
      using b[of ins P part 0 outs tr] that
      by (subst partition_loop.simps) auto
    then show ?thesis
      by (auto simp: evaluate_inner_def Let_def split: sum.splits prod.splits option.splits)
  qed
qed

theorem physics_evaluator_required_witness:
  "at_index (eoses no_physics_app) 0 = Inr None \<and>
   fst (pack host_platform [True, True] 2 [[1, 2], [10, 20]] [[0, 0], [0, 0]] False) = Inr 0 \<and>
   partition_body host_platform no_physics_app 0 2 [[1, 2], [10, 20]] [True, True] 2 0
       [[0, 0], [0, 0], [0, 0], [0, 0]] [] = Inl NullPointer \<and>
   (\<exists>e. evaluate_inner host_platform no_physics_app 0 2 [1, 2] [10, 20] [0, 0] [0, 0] [0, 0] [0, 0]
          = Some (Inl e))"
proof -
  have a: "at_index (eoses no_physics_app) 0 = Inr None"
    by (simp add: no_physics_app_def at_index_def)
  note t = physics_evaluator_required[OF a, where pf = host_platform and num_data = 2
             and partitionElements = 2 and pId = 0 and p_ml_acceptable = "[True, True]"
             and inputs = "[[1, 2], [10, 20]]" and outputs = "[[0, 0], [0, 0], [0, 0], [0, 0]]"
             and trace = "[]" and pDensity = "[1, 2]" and pEnergy = "[10, 20]"
             and pPressure = "[0, 0]" and pBulkmod = "[0, 0]" and pTemperature = "[0, 0]"]
  have p: "pack host_platform [True, True] 2 [[1, 2], [10, 20]] [[0, 0], [0, 0]] False
             = (Inr 0, [[0, 0], [0, 0]])"
    by (simp add: eval_simps)
  have al: "allocate (uninit_value host_platform) sizeof_double (min 2 (2 - 0)) = Inr [0, 0]"
    by (simp add: allocate_def host_platform_def to_size_t_def sizeof_double_def PTRDIFF_MAX_def
          upt_rec)
  have su: "at_index (surrogates no_physics_app) 0 = Inr (Some (constant_surrogate 7))"
    by (simp add: no_physics_app_def at_index_def)
  have p': "pack host_platform (drop (nat 0) [True, True]) (to_size_t (min 2 (2 - 0)))
              (map (drop (nat 0)) [[1, 2], [10, 20]]) [[0, 0], [0, 0]] False
            = (Inr 0, [[0, 0], [0, 0]])"
    using p by (simp add: to_size_t_def)
  have n: "partition_body host_platform no_physics_app 0 2 [[1, 2], [10, 20]] [True, True] 2 0
       [[0, 0], [0, 0], [0, 0], [0, 0]] [] = Inl NullPointer"
    by (rule t[THEN conjunct2, THEN conjunct1, rule_format, OF conjI[OF al conjI[OF su p']]])
  from a p n t show ?thesis by simp
qed

text \<open>
  By contrast, a material without a surrogate is evaluated: the test
  \<^verbatim>\<open>surrogates[mat_idx] != nullptr\<close> skips the inference and, the UQ cache rejecting
  every sample, physics computes them all.
\<close>

lemma absent_surrogate_is_skipped:
  "evaluate_inner host_platform
      (example_app\<lparr>hdcaches := [Some (\<lambda>num_data inputs p_ml_acceptable. map (\<lambda>b. False) p_ml_acceptable)],
                    surrogates := [None]\<rparr>)
      0 2 [1, 2] [10, 20] [0, 0] [0, 0] [0, 0] [0, 0]
     = Some (Inr ([[9, 9], [9, 9], [9, 9], [9, 9]], [UQ_evaluate 2, EOS_Eval 2]))"
proof -
  let ?app = "example_app\<lparr>hdcaches := [Some (\<lambda>num_data inputs p_ml_acceptable. map (\<lambda>b. False) p_ml_acceptable)],
                    surrogates := [None]\<rparr>"
  have c: "computePartitionSize sizeof_double 2 4 True (partitionSize host_platform) = Inr 2"
    using partition_size_of_the_pipeline[of "partitionSize host_platform"]
    by (simp add: host_platform_def INT_MAX_def)
  have b: "partition_body host_platform ?app 0 2 [[1, 2], [10, 20]] [False, False] 2 0
             [[0, 0], [0, 0], [0, 0], [0, 0]] [UQ_evaluate 2]
           = Inr ([[9, 9], [9, 9], [9, 9], [9, 9]], [UQ_evaluate 2, EOS_Eval 2])"
    by (simp add: eval_simps)
  have l: "partition_loop host_platform ?app 0 2 [[1, 2], [10, 20]] [False, False] 2 0
             [[0, 0], [0, 0], [0, 0], [0, 0]] [UQ_evaluate 2]
           = Some (Inr ([[9, 9], [9, 9], [9, 9], [9, 9]], [UQ_evaluate 2, EOS_Eval 2]))"
    by (subst partition_loop.simps, simp add: b INT_MAX_def INT_MIN_def)
       (subst partition_loop.simps, simp)
  have a: "allocate (uninit_bool host_platform) sizeof_bool 2 = Inr [True, True]"
    by (simp add: allocate_def host_platform_def to_size_t_def sizeof_bool_def PTRDIFF_MAX_def
          upt_rec)
  show ?thesis
    by (simp add: evaluate_inner_def a c l at_index_def)
qed

end
